theory Spec2Isabelle
  imports Complex_Main "HOL-Library.Log_Nat" "HOL-Library.Multiset" "HOL-Library.Word"
begin

section \<open>Python values: errors, integers, binary64 floats\<close>

text \<open>
  The program is Python. Its integers are unbounded (\<open>int\<close>); its floats are IEEE 754
  binary64 numbers. Every exception the modelled code can raise is a value of
  \<open>py_error\<close>, and a computation that may raise returns \<open>py_error + 'a\<close>.
\<close>

datatype py_error =
    ZeroDivisionError
  | OverflowError
  | ValueError
  | IndexError
  | KeyError
  | AttributeError

definition py_bind :: "py_error + 'a \<Rightarrow> ('a \<Rightarrow> py_error + 'b) \<Rightarrow> py_error + 'b" where
  "py_bind m f = (case m of Inl e \<Rightarrow> Inl e | Inr v \<Rightarrow> f v)"

text \<open>A comprehension or generator whose element expression may raise: the first
  exception, in iteration order, ends it.\<close>

fun map_result :: "('a \<Rightarrow> py_error + 'b) \<Rightarrow> 'a list \<Rightarrow> py_error + 'b list" where
  "map_result f [] = Inr []"
| "map_result f (x # xs) =
     py_bind (f x) (\<lambda>y. py_bind (map_result f xs) (\<lambda>ys. Inr (y # ys)))"

text \<open>\<open>xs[i]\<close> for an index \<open>i \<ge> 0\<close>.\<close>

definition list_get :: "'a list \<Rightarrow> nat \<Rightarrow> py_error + 'a" where
  "list_get xs i = (if i < length xs then Inr (xs ! i) else Inl IndexError)"

subsection \<open>binary64\<close>

text \<open>
  A float is a finite binary64 value (carried as the rational it denotes), an infinity or
  a NaN. The sign of zero is not modelled: the program converts its floats back to
  integers and divides only after a test for zero, so \<open>-0.0\<close> and \<open>0.0\<close> cannot be told
  apart by it. \<open>rne53\<close> rounds a rational to the nearest value with a 53-bit significand
  (ties to even), with the gradual underflow of binary64 (no exponent below \<open>-1074\<close>);
  \<open>overflow_threshold\<close> is the least magnitude that rounds beyond the largest finite
  binary64 value.
\<close>

datatype pyfloat = Finite rat | PInf | NInf | NaN

definition round_half_even :: "rat \<Rightarrow> int" where
  "round_half_even q =
     (let f = \<lfloor>q\<rfloor>; d = q - of_int f
      in if d < 1 / 2 then f else if 1 / 2 < d then f + 1 else if even f then f else f + 1)"

definition ilog2 :: "rat \<Rightarrow> int" where
  "ilog2 q =
     (let (a, b) = quotient_of q;
          k = int (floorlog 2 (nat a)) - int (floorlog 2 (nat b))
      in if 2 powi k \<le> q then k else k - 1)"

definition rne53 :: "rat \<Rightarrow> rat" where
  "rne53 q =
     (if q = 0 then 0
      else let p = max (ilog2 \<bar>q\<bar> - 52) (- 1074)
           in sgn q * of_int (round_half_even (\<bar>q\<bar> / 2 powi p)) * 2 powi p)"

definition overflow_threshold :: rat where
  "overflow_threshold = 2 ^ 1024 - 2 ^ 970"

definition round64 :: "rat \<Rightarrow> pyfloat" where
  "round64 q =
     (if overflow_threshold \<le> \<bar>q\<bar> then (if 0 < q then PInf else NInf)
      else Finite (rne53 q))"

subsection \<open>Python's arithmetic on floats\<close>

text \<open>\<open>float(i)\<close>, also the implicit conversion of the integer operand of a mixed
  operation: correctly rounded, \<open>OverflowError\<close> when the integer is too large.\<close>

definition int_to_float :: "int \<Rightarrow> py_error + pyfloat" where
  "int_to_float i =
     (if overflow_threshold \<le> \<bar>of_int i\<bar> then Inl OverflowError
      else Inr (Finite (rne53 (of_int i))))"

text \<open>\<open>a / b\<close> on two integers: the correctly rounded quotient.\<close>

definition int_truediv :: "int \<Rightarrow> int \<Rightarrow> py_error + pyfloat" where
  "int_truediv a b =
     (if b = 0 then Inl ZeroDivisionError
      else if overflow_threshold \<le> \<bar>of_int a / of_int b\<bar> then Inl OverflowError
      else Inr (Finite (rne53 (of_int a / of_int b))))"

fun float_neg :: "pyfloat \<Rightarrow> pyfloat" where
  "float_neg (Finite x) = Finite (- x)"
| "float_neg PInf = NInf"
| "float_neg NInf = PInf"
| "float_neg NaN = NaN"

fun float_add :: "pyfloat \<Rightarrow> pyfloat \<Rightarrow> pyfloat" where
  "float_add (Finite x) (Finite y) = round64 (x + y)"
| "float_add NaN _ = NaN"
| "float_add _ NaN = NaN"
| "float_add PInf NInf = NaN"
| "float_add NInf PInf = NaN"
| "float_add PInf _ = PInf"
| "float_add _ PInf = PInf"
| "float_add NInf _ = NInf"
| "float_add _ NInf = NInf"

definition float_sub :: "pyfloat \<Rightarrow> pyfloat \<Rightarrow> pyfloat" where
  "float_sub x y = float_add x (float_neg y)"

fun float_sign :: "pyfloat \<Rightarrow> int" where
  "float_sign (Finite x) = (if 0 < x then 1 else if x < 0 then - 1 else 0)"
| "float_sign PInf = 1"
| "float_sign NInf = - 1"
| "float_sign NaN = 0"

definition signed_inf :: "int \<Rightarrow> pyfloat" where
  "signed_inf s = (if s = 0 then NaN else if 0 < s then PInf else NInf)"

fun float_mul :: "pyfloat \<Rightarrow> pyfloat \<Rightarrow> pyfloat" where
  "float_mul (Finite x) (Finite y) = round64 (x * y)"
| "float_mul NaN _ = NaN"
| "float_mul _ NaN = NaN"
| "float_mul a b = signed_inf (float_sign a * float_sign b)"

text \<open>\<open>x / y\<close> on floats: Python tests the divisor for zero before it divides.\<close>

fun float_truediv :: "pyfloat \<Rightarrow> pyfloat \<Rightarrow> py_error + pyfloat" where
  "float_truediv a (Finite y) =
     (if y = 0 then Inl ZeroDivisionError
      else case a of
             Finite x \<Rightarrow> Inr (round64 (x / y))
           | NaN \<Rightarrow> Inr NaN
           | _ \<Rightarrow> Inr (signed_inf (float_sign a * float_sign (Finite y))))"
| "float_truediv NaN _ = Inr NaN"
| "float_truediv _ NaN = Inr NaN"
| "float_truediv (Finite x) _ = Inr (Finite 0)"
| "float_truediv _ _ = Inr NaN"

text \<open>
  \<open>x ** 2\<close> on a float. The interpreter answers the special bases itself: a NaN, an
  infinity, a zero, and a base of magnitude 1; it replaces a negative base by its
  magnitude (the exponent 2 is an even integer); every other base it passes to the
  \<open>pow\<close> of the C library, and it raises \<open>OverflowError\<close> when \<open>pow\<close> returns an
  infinity. A result that underflows, to a subnormal number or to zero, is returned.

  The C library does not round \<open>pow\<close> correctly, and which value it returns differs
  between libraries. The model takes \<open>pow\<close> to be faithful, which is what an error below
  one unit in the last place amounts to: it returns the exact square when that is a
  binary64 value, and otherwise one of the two binary64 values that enclose the exact
  square, the infinity standing for the value above the largest finite one. Which of the
  two is the library's choice: a \<open>libm\<close> tells, for a base, whether the value above the
  square is the one returned. Every theorem about a computation with a power holds for
  every \<open>libm\<close>.
\<close>

type_synonym libm = "rat \<Rightarrow> bool"

text \<open>The binary64 values next to a positive rational: the largest one that is not
  above it and the least one that is not below it.\<close>

definition round_down53 :: "rat \<Rightarrow> rat" where
  "round_down53 q =
     (let p = max (ilog2 q - 52) (- 1074)
      in of_int \<lfloor>q / 2 powi p\<rfloor> * 2 powi p)"

definition round_up53 :: "rat \<Rightarrow> rat" where
  "round_up53 q =
     (let p = max (ilog2 q - 52) (- 1074)
      in of_int \<lceil>q / 2 powi p\<rceil> * 2 powi p)"

text \<open>The C call \<open>pow(x, 2.0)\<close> for a finite \<open>x > 0\<close>.\<close>

definition c_pow2 :: "libm \<Rightarrow> rat \<Rightarrow> pyfloat" where
  "c_pow2 libm x =
     (let r = (if libm x then round_up53 (x * x) else round_down53 (x * x))
      in if 2 ^ 1024 \<le> r then PInf else Finite r)"

fun float_pow2 :: "libm \<Rightarrow> pyfloat \<Rightarrow> py_error + pyfloat" where
  "float_pow2 libm (Finite x) =
     (if x = 0 then Inr (Finite 0)
      else if \<bar>x\<bar> = 1 then Inr (Finite 1)
      else case c_pow2 libm \<bar>x\<bar> of
             Finite r \<Rightarrow> Inr (Finite r)
           | _ \<Rightarrow> Inl OverflowError)"
| "float_pow2 libm NaN = Inr NaN"
| "float_pow2 libm _ = Inr PInf"

text \<open>\<open>int(x)\<close> on a float: truncation toward zero.\<close>

fun float_to_int :: "pyfloat \<Rightarrow> py_error + int" where
  "float_to_int (Finite x) = Inr (if 0 \<le> x then \<lfloor>x\<rfloor> else \<lceil>x\<rceil>)"
| "float_to_int NaN = Inl ValueError"
| "float_to_int _ = Inl OverflowError"

text \<open>\<open>sum\<close> over floats: the integer start value 0 and then one float addition per
  element, left to right. (Later versions of the interpreter carry a correction term
  along; a sum whose partial sums are all exact, as those the theorems below evaluate
  are, is the same under both.)\<close>

definition py_sum :: "pyfloat list \<Rightarrow> pyfloat" where
  "py_sum xs = foldl float_add (Finite 0) xs"

subsection \<open>Dictionaries\<close>

text \<open>
  A Python \<open>dict\<close> keeps its keys in insertion order, and the program iterates over
  its dicts, so a dict is the list of its (key, value) entries in that order.
  \<open>d[k] = v\<close> replaces the value of a present key where it stands and appends a new
  key; \<open>d[k]\<close> raises \<open>KeyError\<close> on a missing key.
\<close>

type_synonym ('k, 'v) dict = "('k \<times> 'v) list"

definition dict_in :: "'k \<Rightarrow> ('k, 'v) dict \<Rightarrow> bool" where
  "dict_in k d = (map_of d k \<noteq> None)"

definition dict_get :: "('k, 'v) dict \<Rightarrow> 'k \<Rightarrow> py_error + 'v" where
  "dict_get d k = (case map_of d k of None \<Rightarrow> Inl KeyError | Some v \<Rightarrow> Inr v)"

fun dict_set :: "('k, 'v) dict \<Rightarrow> 'k \<Rightarrow> 'v \<Rightarrow> ('k, 'v) dict" where
  "dict_set [] k v = [(k, v)]"
| "dict_set ((k', v') # d) k v =
     (if k' = k then (k, v) # d else (k', v') # dict_set d k v)"

text \<open>The idiom of both grouping loops of the program:
  \<^verbatim>\<open>if k not in d: d[k] = []\<close> and then \<^verbatim>\<open>d[k].append(v)\<close>.\<close>

definition dict_append :: "('k, 'v list) dict \<Rightarrow> 'k \<Rightarrow> 'v \<Rightarrow> py_error + ('k, 'v list) dict" where
  "dict_append d k v =
     (let d = (if \<not> dict_in k d then dict_set d k [] else d)
      in py_bind (dict_get d k) (\<lambda>vs. Inr (dict_set d k (vs @ [v]))))"

text \<open>A loop over a list whose body may raise and updates the loop's state.\<close>

fun fold_result :: "('s \<Rightarrow> 'a \<Rightarrow> py_error + 's) \<Rightarrow> 's \<Rightarrow> 'a list \<Rightarrow> py_error + 's" where
  "fold_result step s [] = Inr s"
| "fold_result step s (x # xs) = py_bind (step s x) (\<lambda>s'. fold_result step s' xs)"

subsection \<open>The random module\<close>

text \<open>
  The generator is an oracle: the sequence of its future raw outputs. \<open>random.choice\<close>
  raises \<open>IndexError\<close> on an empty sequence and otherwise takes one output, reduces it
  below the length and indexes the sequence with it; the generator moves on by one.
  Every theorem about a random computation holds for every oracle.
\<close>

type_synonym rng = "nat \<Rightarrow> nat"

definition random_choice :: "'a list \<Rightarrow> rng \<Rightarrow> py_error + ('a \<times> rng)" where
  "random_choice seq rng =
     (if seq = [] then Inl IndexError
      else Inr (seq ! (rng 0 mod length seq), \<lambda>i. rng (Suc i)))"

section \<open>fire\_classes\<close>

text \<open>
  The two dataclasses. Their fields are \<open>year\<close>, \<open>county\<close>, \<open>acreage\<close>, \<open>cause\<close>,
  \<open>structures_destroyed\<close> and \<open>year\<close>, \<open>fires\<close>, \<open>acreage\<close>, \<open>top_five\<close>; the selectors
  carry the class as a prefix, since the program uses the bare names for its variables.
  The program never assigns to a field of either class.
\<close>

datatype CaliFire =
  CaliFire (fire_year: int) (fire_county: string) (fire_acreage: int) (fire_cause: string)
    (fire_structures_destroyed: int)

datatype CaliFireSeason =
  CaliFireSeason (season_year: int) (season_fires: int) (season_acreage: int)
    (season_top_five: "CaliFire list")

section \<open>data\_functions: the forecaster\<close>

subsection \<open>Linear extrapolation\<close>

text \<open>The nested function \<open>f\<close> of both extrapolations, \<open>int(a + x * b)\<close>; the
  \<open>a\<close> and \<open>b\<close> it reads from the enclosing call are its first two arguments. The
  functions that compute a power take the C library of the interpreter as their first
  argument.\<close>

definition extrapolate_f :: "pyfloat \<Rightarrow> pyfloat \<Rightarrow> int \<Rightarrow> py_error + int" where
  "extrapolate_f a b x = py_bind (int_to_float x) (\<lambda>xf. float_to_int (float_add a (float_mul xf b)))"

definition extrapolate_num_fires :: "libm \<Rightarrow> int list \<Rightarrow> int list \<Rightarrow> int \<Rightarrow> py_error + int list" where
  "extrapolate_num_fires libm years fires n =
     py_bind (int_truediv (sum_list years) (int (length years))) (\<lambda>avr_x.
     py_bind (int_truediv (sum_list fires) (int (length fires))) (\<lambda>avr_y.
     py_bind (map_result (\<lambda>i.
         py_bind (list_get years i) (\<lambda>yi.
         py_bind (int_to_float yi) (\<lambda>yf.
         py_bind (list_get fires i) (\<lambda>fi.
         py_bind (int_to_float fi) (\<lambda>ff.
         Inr (float_mul (float_sub yf avr_x) (float_sub ff avr_y)))))))
       [0..<length fires]) (\<lambda>numerator_terms.
     py_bind (map_result (\<lambda>i.
         py_bind (list_get years i) (\<lambda>yi.
         py_bind (int_to_float yi) (\<lambda>yf.
         float_pow2 libm (float_sub yf avr_x))))
       [0..<length years]) (\<lambda>denominator_terms.
     py_bind (float_truediv (py_sum numerator_terms) (py_sum denominator_terms)) (\<lambda>b.
     let a = float_sub avr_y (float_mul b avr_x)
     in map_result (\<lambda>i. extrapolate_f a b (2020 + i)) [1..n])))))"

definition extrapolate_acreages :: "libm \<Rightarrow> int list \<Rightarrow> int list \<Rightarrow> int list \<Rightarrow> py_error + int list" where
  "extrapolate_acreages libm fires acreages next_fires =
     py_bind (int_truediv (sum_list fires) (int (length fires))) (\<lambda>avr_x.
     py_bind (int_truediv (sum_list acreages) (int (length acreages))) (\<lambda>avr_y.
     py_bind (map_result (\<lambda>i.
         py_bind (list_get fires i) (\<lambda>xi.
         py_bind (int_to_float xi) (\<lambda>xf.
         py_bind (list_get acreages i) (\<lambda>yi.
         py_bind (int_to_float yi) (\<lambda>yf.
         Inr (float_mul (float_sub xf avr_x) (float_sub yf avr_y)))))))
       [0..<length fires]) (\<lambda>numerator_terms.
     py_bind (map_result (\<lambda>i.
         py_bind (list_get fires i) (\<lambda>xi.
         py_bind (int_to_float xi) (\<lambda>xf.
         float_pow2 libm (float_sub xf avr_x))))
       [0..<length fires]) (\<lambda>denominator_terms.
     py_bind (float_truediv (py_sum numerator_terms) (py_sum denominator_terms)) (\<lambda>b.
     let a = float_sub avr_y (float_mul b avr_x)
     in map_result (\<lambda>fire. extrapolate_f a b fire) next_fires)))))"

text \<open>
  Both functions fit the line before they evaluate it, with the same statements. The fit
  alone, for the lemmas that hold of both: \<open>xs\<close> and \<open>ys\<close> are the two lists and
  \<open>terms\<close> the number of terms of the numerator's sum, which the source takes from
  \<open>len(fires)\<close> in both functions (the second list in one, the first in the other).
\<close>

definition least_squares :: "libm \<Rightarrow> int list \<Rightarrow> int list \<Rightarrow> nat \<Rightarrow> py_error + (pyfloat \<times> pyfloat)" where
  "least_squares libm xs ys terms =
     py_bind (int_truediv (sum_list xs) (int (length xs))) (\<lambda>avr_x.
     py_bind (int_truediv (sum_list ys) (int (length ys))) (\<lambda>avr_y.
     py_bind (map_result (\<lambda>i.
         py_bind (list_get xs i) (\<lambda>xi.
         py_bind (int_to_float xi) (\<lambda>xf.
         py_bind (list_get ys i) (\<lambda>yi.
         py_bind (int_to_float yi) (\<lambda>yf.
         Inr (float_mul (float_sub xf avr_x) (float_sub yf avr_y)))))))
       [0..<terms]) (\<lambda>numerator_terms.
     py_bind (map_result (\<lambda>i.
         py_bind (list_get xs i) (\<lambda>xi.
         py_bind (int_to_float xi) (\<lambda>xf.
         float_pow2 libm (float_sub xf avr_x))))
       [0..<length xs]) (\<lambda>denominator_terms.
     py_bind (float_truediv (py_sum numerator_terms) (py_sum denominator_terms)) (\<lambda>b.
     Inr (float_sub avr_y (float_mul b avr_x), b))))))"

text \<open>The integers that a conversion to float accepts.\<close>

definition float_range :: "int \<Rightarrow> bool" where
  "float_range i = (\<bar>rat_of_int i\<bar> < overflow_threshold)"

subsection \<open>The synthetic top five\<close>

text \<open>\<^verbatim>\<open>[random.choice(counties) for _ in range(5)]\<close>, for any number of draws.\<close>

fun choices :: "nat \<Rightarrow> 'a list \<Rightarrow> rng \<Rightarrow> py_error + ('a list \<times> rng)" where
  "choices 0 seq rng = Inr ([], rng)"
| "choices (Suc k) seq rng =
     py_bind (random_choice seq rng) (\<lambda>(c, rng).
     py_bind (choices k seq rng) (\<lambda>(cs, rng). Inr (c # cs, rng)))"

definition predict_next_five_counties :: "string list \<Rightarrow> rng \<Rightarrow> py_error + (string list \<times> rng)" where
  "predict_next_five_counties counties rng = choices 5 counties rng"

definition predict_cause :: "string list \<Rightarrow> rng \<Rightarrow> py_error + (string \<times> rng)" where
  "predict_cause causes rng = random_choice causes rng"

text \<open>The loop of \<open>predict_next_top_five\<close> over the five drawn counties.\<close>

fun top_five_loop ::
  "int \<Rightarrow> (string, string list) dict \<Rightarrow> string list \<Rightarrow> CaliFire list \<Rightarrow> rng
     \<Rightarrow> py_error + (CaliFire list \<times> rng)" where
  "top_five_loop year counties_causes [] top_five_so_far rng = Inr (top_five_so_far, rng)"
| "top_five_loop year counties_causes (county # rest) top_five_so_far rng =
     py_bind (dict_get counties_causes county) (\<lambda>causes.
     py_bind (predict_cause causes rng) (\<lambda>(cause, rng).
     top_five_loop year counties_causes rest
       (top_five_so_far @ [CaliFire year county 90000 cause 32]) rng))"

definition predict_next_top_five ::
  "int \<Rightarrow> string list \<Rightarrow> (string, string list) dict \<Rightarrow> rng
     \<Rightarrow> py_error + (CaliFire list \<times> rng)" where
  "predict_next_top_five year counties counties_causes rng =
     py_bind (predict_next_five_counties counties rng) (\<lambda>(five_counties, rng).
     top_five_loop year counties_causes five_counties [] rng)"

subsection \<open>predict\_fire\_season\_data\<close>

text \<open>The loop that fills \<open>all_counties\<close> and \<open>counties_causes\<close>: its body, for one
  fire of one season's top five, and the two nested loops over the seasons in the
  dict's order and over each season's top five.\<close>

definition collect_fire ::
  "string list \<times> (string, string list) dict \<Rightarrow> CaliFire
     \<Rightarrow> py_error + (string list \<times> (string, string list) dict)" where
  "collect_fire st fire =
     (case st of (all_counties, counties_causes) \<Rightarrow>
        py_bind (dict_append counties_causes (fire_county fire) (fire_cause fire))
          (\<lambda>counties_causes. Inr (all_counties @ [fire_county fire], counties_causes)))"

definition historical_fires :: "(int, CaliFireSeason) dict \<Rightarrow> CaliFire list" where
  "historical_fires seasons = concat (map (\<lambda>(year, season). season_top_five season) seasons)"

definition collect_counties ::
  "(int, CaliFireSeason) dict \<Rightarrow> py_error + (string list \<times> (string, string list) dict)" where
  "collect_counties seasons = fold_result collect_fire ([], []) (historical_fires seasons)"

text \<open>
  The last loop: it stores one season per future year into the dict. The function
  mutates its argument, so the model returns the dict as it stands when the call ends,
  together with the exception that ended it, if any. The state of the random generator
  after the call is not returned: nothing else in the program draws from it.

  Where the source iterates over the keys of \<open>seasons\<close> and reads \<open>seasons[year]\<close>,
  the model iterates over the entries: the value read is the one of the entry the loop
  is at.
\<close>

fun predict_loop ::
  "int list \<Rightarrow> int list \<Rightarrow> string list \<Rightarrow> (string, string list) dict \<Rightarrow> int list
     \<Rightarrow> (int, CaliFireSeason) dict \<Rightarrow> rng \<Rightarrow> py_error option \<times> (int, CaliFireSeason) dict" where
  "predict_loop next_fires next_acreages all_counties counties_causes [] seasons rng =
     (None, seasons)"
| "predict_loop next_fires next_acreages all_counties counties_causes (i # rest) seasons rng =
     (let year = 2020 + i
      in case list_get next_fires (nat (i - 1)) of
           Inl e \<Rightarrow> (Some e, seasons)
         | Inr fires \<Rightarrow>
     (case list_get next_acreages (nat (i - 1)) of
           Inl e \<Rightarrow> (Some e, seasons)
         | Inr acreage \<Rightarrow>
     (case predict_next_top_five year all_counties counties_causes rng of
           Inl e \<Rightarrow> (Some e, seasons)
         | Inr (top_five, rng) \<Rightarrow>
             predict_loop next_fires next_acreages all_counties counties_causes rest
               (dict_set seasons year (CaliFireSeason year fires acreage top_five)) rng)))"

definition predict_fire_season_data ::
  "libm \<Rightarrow> (int, CaliFireSeason) dict \<Rightarrow> int \<Rightarrow> rng \<Rightarrow> py_error option \<times> (int, CaliFireSeason) dict" where
  "predict_fire_season_data libm seasons n rng =
     (let all_years = map (\<lambda>(year, season). season_year season) seasons;
          all_num_fires = map (\<lambda>(year, season). season_fires season) seasons;
          all_acreage = map (\<lambda>(year, season). season_acreage season) seasons
      in case collect_counties seasons of
           Inl e \<Rightarrow> (Some e, seasons)
         | Inr (all_counties, counties_causes) \<Rightarrow>
     (case extrapolate_num_fires libm all_years all_num_fires n of
           Inl e \<Rightarrow> (Some e, seasons)
         | Inr next_fires \<Rightarrow>
     (case extrapolate_acreages libm all_num_fires all_acreage next_fires of
           Inl e \<Rightarrow> (Some e, seasons)
         | Inr next_acreages \<Rightarrow>
             predict_loop next_fires next_acreages all_counties counties_causes [1..n]
               seasons rng)))"

section \<open>colour\_fonts and county\_mapping\<close>

type_synonym colour = "int \<times> int \<times> int"

definition WHITE :: colour where "WHITE = (255, 255, 255)"
definition BLACK :: colour where "BLACK = (0, 0, 0)"
definition RED :: colour where "RED = (255, 0, 0)"
definition LIGHT_RED :: colour where "LIGHT_RED = (255, 125, 125)"
definition ORANGE :: colour where "ORANGE = (255, 127, 0)"
definition LIGHT_ORANGE :: colour where "LIGHT_ORANGE = (255, 190, 125)"
definition YELLOW :: colour where "YELLOW = (245, 206, 66)"
definition LIGHT_BLUE :: colour where "LIGHT_BLUE = (200, 234, 247)"

text \<open>
  The two fonts are objects of the graphics library. The only thing the modelled code
  asks of a font is the pixel size of a text, \<^verbatim>\<open>font.size(text)\<close>; the library is not part
  of the program, so that measure is a parameter \<open>font_size\<close> of every function that
  needs it. The library returns the two C \<open>int\<close>s its text renderer wrote: 32-bit words, read as signed
  integers.
\<close>

datatype font = CALIBRI_14_B | CALIBRI_24_B

type_synonym font_size = "font \<Rightarrow> string \<Rightarrow> 32 word \<times> 32 word"

definition MAPPING :: "(string, int \<times> int) dict" where
  "MAPPING =
     [(''Ventura'', (212, 398)),
      (''Los Angeles'', (248, 399)),
      (''Santa Barbara'', (171, 385)),
      (''Colusa'', (90, 155)),
      (''Sonoma'', (57, 182)),
      (''Mendocino'', (41, 129)),
      (''Plumas'', (146, 110)),
      (''Butte'', (112, 127)),
      (''Placer'', (151, 157)),
      (''San Bernardino'', (330, 376)),
      (''Inyo'', (271, 282)),
      (''San Francisco'', (76, 225)),
      (''San Joaquin'', (125, 219)),
      (''San Luis Obispo'', (157, 353)),
      (''Lassen'', (151, 68)),
      (''Tuolumne'', (175, 213)),
      (''Fresno'', (172, 287)),
      (''Amador'', (151, 191)),
      (''Riverside'', (336, 430)),
      (''Modoc'', (148, 20)),
      (''Lake'', (66, 157)),
      (''Monterey'', (128, 316)),
      (''Shasta'', (99, 66)),
      (''Siskiyou'', (76, 19)),
      (''Trinity'', (53, 69)),
      (''Kern'', (228, 352)),
      (''El Dorado'', (155, 174)),
      (''Mariposa'', (176, 236)),
      (''San Diego'', (314, 469))]"

section \<open>scrollable\_classes\<close>

text \<open>
  The abstract class and its three subclasses. Every object has the coordinates \<open>_x\<close>
  and \<open>_y\<close>, the first two arguments of each constructor below. The further fields are
  \<^item> \<open>Image\<close>: the file its picture was loaded from;
  \<^item> \<open>FireCircle\<close>: \<open>_county\<close>, \<open>_acreage\<close>, \<open>_fires\<close>, \<open>_radius\<close>, \<open>_colour\<close>, the last two
    optional because \<open>__init__\<close> assigns them only inside branches;
  \<^item> \<open>TextLabel\<close>: \<open>text\<close>, \<open>_font\<close>, \<open>_colour\<close>.
\<close>

datatype ScrollableObject =
    Image int int string
  | FireCircle int int string int "CaliFire list" "int option" "colour option"
  | TextLabel int int string font colour

fun get_coords :: "ScrollableObject \<Rightarrow> int \<times> int" where
  "get_coords (Image x y filename) = (x, y)"
| "get_coords (FireCircle x y county acreage fires radius colour) = (x, y)"
| "get_coords (TextLabel x y text font colour) = (x, y)"

fun translate :: "ScrollableObject \<Rightarrow> int \<Rightarrow> int \<Rightarrow> ScrollableObject" where
  "translate (Image x y filename) dx dy = Image (x + dx) (y + dy) filename"
| "translate (FireCircle x y county acreage fires radius colour) dx dy =
     FireCircle (x + dx) (y + dy) county acreage fires radius colour"
| "translate (TextLabel x y text font colour) dx dy = TextLabel (x + dx) (y + dy) text font colour"

fun move_to :: "ScrollableObject \<Rightarrow> int \<Rightarrow> int \<Rightarrow> ScrollableObject" where
  "move_to (Image _ _ filename) x y = Image x y filename"
| "move_to (FireCircle _ _ county acreage fires radius colour) x y =
     FireCircle x y county acreage fires radius colour"
| "move_to (TextLabel _ _ text font colour) x y = TextLabel x y text font colour"

text \<open>The dictionary of acreage bounds to colour and radius, in the order it is written,
  which is the order the loop of \<open>FireCircle.__init__\<close> visits it in.\<close>

definition bounds :: "(int, colour \<times> int) dict" where
  "bounds =
     [(0, (YELLOW, 10)),
      (10000, (YELLOW, 12)),
      (20000, (YELLOW, 15)),
      (40000, (ORANGE, 18)),
      (60000, (ORANGE, 20)),
      (80000, (RED, 22)),
      (100000, (RED, 25))]"

text \<open>The loop of \<open>FireCircle.__init__\<close> over \<open>bounds\<close>: it starts with neither
  attribute assigned and assigns both at every bound the acreage reaches.\<close>

definition scan_bounds :: "int \<Rightarrow> colour option \<times> int option" where
  "scan_bounds acreage =
     foldl (\<lambda>(colour, radius) (bound, (c, r)).
              if acreage \<ge> bound then (Some c, Some r) else (colour, radius))
       (None, None) bounds"

text \<open>\<open>FireCircle.__init__\<close>: \<open>fires[0]\<close> raises on an empty list.\<close>

fun FireCircle_init :: "int \<Rightarrow> int \<Rightarrow> CaliFire list \<Rightarrow> py_error + ScrollableObject" where
  "FireCircle_init x y [] = Inl IndexError"
| "FireCircle_init x y (fire0 # rest) =
     (let fires = fire0 # rest
      in if fire_year fire0 > 2020
         then Inr (FireCircle x y (fire_county fire0) 0 fires (Some 25) (Some LIGHT_RED))
         else let acreage = foldl (\<lambda>acreage fire. acreage + fire_acreage fire) 0 fires;
                  (colour, radius) = scan_bounds acreage
              in Inr (FireCircle x y (fire_county fire0) acreage fires radius colour))"

text \<open>\<open>FireCircle.get_bounds\<close>; reading \<open>_radius\<close> raises when it was never assigned, and
  the other classes have no such method.\<close>

fun get_bounds :: "ScrollableObject \<Rightarrow> py_error + (int \<times> int \<times> int \<times> int)" where
  "get_bounds (FireCircle x y county acreage fires (Some radius) colour) =
     Inr (x - radius, y - radius, radius * 2, radius * 2)"
| "get_bounds _ = Inl AttributeError"

fun get_fires :: "ScrollableObject \<Rightarrow> py_error + CaliFire list" where
  "get_fires (FireCircle x y county acreage fires radius colour) = Inr fires"
| "get_fires _ = Inl AttributeError"

text \<open>The private attributes of a circle that the claims speak of, and
  \<open>isinstance(scrollable, FireCircle)\<close>.\<close>

fun circle_radius :: "ScrollableObject \<Rightarrow> int option" where
  "circle_radius (FireCircle x y county acreage fires radius colour) = radius"
| "circle_radius _ = None"

fun circle_colour :: "ScrollableObject \<Rightarrow> colour option" where
  "circle_colour (FireCircle x y county acreage fires radius colour) = colour"
| "circle_colour _ = None"

fun circle_county :: "ScrollableObject \<Rightarrow> string option" where
  "circle_county (FireCircle x y county acreage fires radius colour) = Some county"
| "circle_county _ = None"

fun is_FireCircle :: "ScrollableObject \<Rightarrow> bool" where
  "is_FireCircle (FireCircle x y county acreage fires radius colour) = True"
| "is_FireCircle _ = False"

text \<open>A sequence of \<open>translate\<close> calls on one object.\<close>

definition translate_calls :: "ScrollableObject \<Rightarrow> (int \<times> int) list \<Rightarrow> ScrollableObject" where
  "translate_calls obj ds = foldl (\<lambda>obj (dx, dy). translate obj dx dy) obj ds"

text \<open>\<open>TextLabel.centerize_width\<close>: \<^verbatim>\<open>self._x = int(screen_w / 2 - text_w / 2)\<close>.\<close>

fun centerize_width :: "font_size \<Rightarrow> ScrollableObject \<Rightarrow> int \<Rightarrow> py_error + ScrollableObject" where
  "centerize_width font_size (TextLabel x y text font colour) screen_w =
     (let text_w = sint (fst (font_size font text))
      in py_bind (int_truediv screen_w 2) (\<lambda>half_screen.
         py_bind (int_truediv text_w 2) (\<lambda>half_text.
         py_bind (float_to_int (float_sub half_screen half_text)) (\<lambda>x.
         Inr (TextLabel x y text font colour)))))"
| "centerize_width font_size _ screen_w = Inl AttributeError"

section \<open>graphics\_functions\<close>

definition WIDTH :: int where "WIDTH = 800"
definition HEIGHT :: int where "HEIGHT = 800"

text \<open>
  \<open>str\<close> on an integer, as the f-strings of the labels format it: the decimal digits
  after the sign. The interpreter (from version 3.11 on) refuses to convert an integer
  of more than 4300 digits, the default of \<open>sys.set_int_max_str_digits\<close>, which the
  program does not change: it raises \<open>ValueError\<close>.
\<close>

fun str_nat :: "nat \<Rightarrow> string" where
  "str_nat n =
     (if n < 10 then [''0123456789'' ! n]
      else str_nat (n div 10) @ [''0123456789'' ! (n mod 10)])"

definition decimal :: "int \<Rightarrow> string" where
  "decimal i = (if i < 0 then CHR ''-'' # str_nat (nat (- i)) else str_nat (nat i))"

definition digit_count :: "int \<Rightarrow> nat" where
  "digit_count i = length (str_nat (nat \<bar>i\<bar>))"

definition default_max_str_digits :: nat where
  "default_max_str_digits = 4300"

definition str_int :: "int \<Rightarrow> py_error + string" where
  "str_int i =
     (if digit_count i > default_max_str_digits then Inl ValueError else Inr (decimal i))"

text \<open>The body of the second loop of \<open>get_counties_on_map\<close>, up to the circle it
  appends: the two lookups and the constructor call.\<close>

definition county_circle ::
  "(string, CaliFire list) dict \<Rightarrow> ScrollableObject \<Rightarrow> string \<Rightarrow> py_error + ScrollableObject" where
  "county_circle fire_dict img_map county =
     py_bind (dict_get MAPPING county) (\<lambda>(x1, y1).
     case get_coords img_map of (x2, y2) \<Rightarrow>
     py_bind (dict_get fire_dict county) (\<lambda>fires.
     FireCircle_init (x1 + x2) (y1 + y2) fires))"

definition get_counties_on_map :: "CaliFireSeason \<Rightarrow> ScrollableObject \<Rightarrow> py_error + ScrollableObject list" where
  "get_counties_on_map season img_map =
     py_bind (fold_result (\<lambda>fire_dict fire. dict_append fire_dict (fire_county fire) fire)
                [] (season_top_five season)) (\<lambda>fire_dict.
     fold_result (\<lambda>circles_so_far county.
         py_bind (county_circle fire_dict img_map county) (\<lambda>circle.
         Inr (circles_so_far @ [circle])))
       [] (map fst fire_dict))"

text \<open>\<open>get_scrollables_for_season\<close>. The summary of a historical season is formatted
  first, whatever the year; a season after 2020 has it formatted again, with the
  approximation marks.\<close>

definition get_scrollables_for_season ::
  "font_size \<Rightarrow> CaliFireSeason \<Rightarrow> ScrollableObject \<Rightarrow> py_error + ScrollableObject list" where
  "get_scrollables_for_season font_size season img_map =
     py_bind (str_int (season_fires season)) (\<lambda>fires_str.
     py_bind (str_int (season_acreage season)) (\<lambda>acreage_str.
     let season_text = ''Total # of fires: '' @ fires_str @ ''    ''
                         @ ''Total acreage burned: '' @ acreage_str;
         map_text = ''Top Five Fires:''
     in py_bind (if season_year season > 2020
                 then py_bind (str_int (season_fires season)) (\<lambda>fires_str.
                      py_bind (str_int (season_acreage season)) (\<lambda>acreage_str.
                      Inr (''Total # of fires: ~'' @ fires_str @ ''    ''
                             @ ''Total acreage burned: ~'' @ acreage_str,
                           ''Five Vulnerable Counties:'')))
                 else Inr (season_text, map_text)) (\<lambda>(season_text, map_text).
        py_bind (centerize_width font_size (TextLabel 0 160 season_text CALIBRI_24_B BLACK) WIDTH)
          (\<lambda>season_data_label.
        py_bind (centerize_width font_size (TextLabel 0 200 map_text CALIBRI_24_B BLACK) WIDTH)
          (\<lambda>map_label.
        py_bind (get_counties_on_map season img_map) (\<lambda>county_circles.
        Inr ([season_data_label, map_label, img_map] @ county_circles)))))))"

definition scroll_objects :: "ScrollableObject list \<Rightarrow> int \<Rightarrow> ScrollableObject list" where
  "scroll_objects scrollables scroll_amount =
     map (\<lambda>scrollable. translate scrollable 0 scroll_amount) scrollables"

fun get_mouse_on_fire_circle ::
  "int \<Rightarrow> int \<Rightarrow> ScrollableObject list \<Rightarrow> py_error + ScrollableObject option" where
  "get_mouse_on_fire_circle x y [] = Inr None"
| "get_mouse_on_fire_circle x y (FireCircle fx fy county acreage fires radius colour # rest) =
     py_bind (get_bounds (FireCircle fx fy county acreage fires radius colour)) (\<lambda>(cx, cy, w, h).
       if (cx < x \<and> x < cx + w) \<and> (cy < y \<and> y < cy + h)
       then Inr (Some (FireCircle fx fy county acreage fires radius colour))
       else get_mouse_on_fire_circle x y rest)"
| "get_mouse_on_fire_circle x y (_ # rest) = get_mouse_on_fire_circle x y rest"

section \<open>main: the frame loop\<close>

definition FUTURE_YEARS :: int where "FUTURE_YEARS = 10"
definition SCROLL_SPEED :: int where "SCROLL_SPEED = 15"
definition MAX_SCROLL :: int where "MAX_SCROLL = 600"

text \<open>
  The variables of the main loop are the state of a machine that the input events drive.
  An event has one type; the loop looks at the button of a pressed mouse button and at
  the key of a pressed key. \<open>xs[i]\<close> with an integer variable as index counts from the end
  of the list when the index is negative.
\<close>

datatype key = K_RIGHT | K_LEFT | K_OTHER

datatype event = QUIT | MOUSEBUTTONDOWN int | KEYDOWN key | OTHER_EVENT

definition list_index :: "'a list \<Rightarrow> int \<Rightarrow> py_error + 'a" where
  "list_index xs i =
     (if 0 \<le> i then list_get xs (nat i)
      else if - i \<le> int (length xs) then list_get xs (length xs - nat (- i))
      else Inl IndexError)"

definition py_mod :: "int \<Rightarrow> int \<Rightarrow> py_error + int" where
  "py_mod a b = (if b = 0 then Inl ZeroDivisionError else Inr (a mod b))"

record app_state =
  running :: bool
  scrollables :: "ScrollableObject list"
  scroll_amount :: int
  curr_index :: int

definition initial_map_coords :: "int \<times> int" where
  "initial_map_coords = (190, 240)"

definition new_scene ::
  "font_size \<Rightarrow> (int, CaliFireSeason) dict \<Rightarrow> int \<Rightarrow> py_error + ScrollableObject list" where
  "new_scene font_size fire_season_data index =
     (case initial_map_coords of (mapx, mapy) \<Rightarrow>
        py_bind (list_index (map fst fire_season_data) index) (\<lambda>year.
        py_bind (dict_get fire_season_data year) (\<lambda>season.
        get_scrollables_for_season font_size season (Image mapx mapy ''county_map.jpg''))))"

definition handle_event ::
  "font_size \<Rightarrow> (int, CaliFireSeason) dict \<Rightarrow> app_state \<Rightarrow> event \<Rightarrow> py_error + app_state" where
  "handle_event font_size fire_season_data st ev =
     (case ev of
        QUIT \<Rightarrow> Inr (st\<lparr>running := False\<rparr>)
      | MOUSEBUTTONDOWN button \<Rightarrow>
          (let scroll_direction = (if button = 5 then - 1 else 1);
               scroll_translate = scroll_direction * SCROLL_SPEED
           in if 0 \<le> scroll_amount st - scroll_translate
                 \<and> scroll_amount st - scroll_translate \<le> MAX_SCROLL
              then Inr (st\<lparr>scrollables := scroll_objects (scrollables st) scroll_translate,
                           scroll_amount := scroll_amount st - scroll_translate\<rparr>)
              else Inr st)
      | KEYDOWN k \<Rightarrow>
          py_bind (case k of
                     K_RIGHT \<Rightarrow> py_mod (curr_index st + 1) (int (length fire_season_data))
                   | K_LEFT \<Rightarrow> py_mod (curr_index st - 1) (int (length fire_season_data))
                   | K_OTHER \<Rightarrow> Inr (curr_index st)) (\<lambda>index.
          py_bind (new_scene font_size fire_season_data index) (\<lambda>scene.
          Inr (st\<lparr>scrollables := scene, scroll_amount := 0, curr_index := index\<rparr>)))
      | OTHER_EVENT \<Rightarrow> Inr st)"

text \<open>One pass of the loop body: the escape key, the queued events, the hit test under
  the mouse. Drawing, and loading the picture of the map, belong to the graphics
  library: they change no variable of the loop, and where one of them would end the
  program with an exception the model goes on, so the states the program reaches are
  among those of the model.\<close>

definition frame ::
  "font_size \<Rightarrow> (int, CaliFireSeason) dict \<Rightarrow> app_state \<Rightarrow> (int \<times> int) \<times> bool \<times> event list
     \<Rightarrow> py_error + app_state" where
  "frame font_size fire_season_data st inp =
     (case inp of ((mouse_x, mouse_y), escape, events) \<Rightarrow>
        py_bind (fold_result (handle_event font_size fire_season_data)
                   (if escape then st\<lparr>running := False\<rparr> else st) events) (\<lambda>st.
        py_bind (get_mouse_on_fire_circle mouse_x mouse_y (scrollables st)) (\<lambda>specific_fire.
        Inr st)))"

fun main_loop ::
  "font_size \<Rightarrow> (int, CaliFireSeason) dict \<Rightarrow> app_state \<Rightarrow> ((int \<times> int) \<times> bool \<times> event list) list
     \<Rightarrow> py_error + app_state" where
  "main_loop font_size fire_season_data st [] = Inr st"
| "main_loop font_size fire_season_data st (inp # inps) =
     (if running st
      then py_bind (frame font_size fire_season_data st inp)
             (\<lambda>st. main_loop font_size fire_season_data st inps)
      else Inr st)"

definition main_init :: "font_size \<Rightarrow> (int, CaliFireSeason) dict \<Rightarrow> py_error + app_state" where
  "main_init font_size fire_season_data =
     py_bind (new_scene font_size fire_season_data 0) (\<lambda>scene.
     Inr \<lparr>running = True, scrollables = scene, scroll_amount = 0, curr_index = 0\<rparr>)"

text \<open>The bounds the loop keeps the cumulative scroll offset in.\<close>

definition scroll_in_bounds :: "app_state \<Rightarrow> bool" where
  "scroll_in_bounds st = (0 \<le> scroll_amount st \<and> scroll_amount st \<le> MAX_SCROLL)"

section \<open>The specification's own words\<close>

text \<open>
  The specification describes the style of a circle and the hit test in its own terms.
  These definitions follow those words, not the code; the theorems below compare them
  with the code.

  The threshold table of the specification, and the entry whose lower bound is the
  highest among those the accumulated acreage satisfies.
\<close>

definition spec_threshold_table :: "(int \<times> colour \<times> int) list" where
  "spec_threshold_table =
     [(0, (245, 206, 66), 10),
      (10000, (245, 206, 66), 12),
      (20000, (245, 206, 66), 15),
      (40000, (255, 127, 0), 18),
      (60000, (255, 127, 0), 20),
      (80000, (255, 0, 0), 22),
      (100000, (255, 0, 0), 25)]"

definition spec_circle_style :: "int \<Rightarrow> (colour \<times> int) option" where
  "spec_circle_style accumulated =
     (case filter (\<lambda>(bound, style). bound \<le> accumulated) spec_threshold_table of
        [] \<Rightarrow> None
      | satisfied \<Rightarrow> map_of satisfied (Max (set (map fst satisfied))))"

text \<open>A text of width \<open>text_w\<close> is horizontally centred on a canvas of width \<open>screen_w\<close>
  when its left edge leaves half of the free width on its left, a half pixel being
  dropped (rounding toward zero).\<close>

definition spec_centred_x :: "int \<Rightarrow> int \<Rightarrow> int" where
  "spec_centred_x screen_w text_w =
     (if text_w \<le> screen_w then (screen_w - text_w) div 2
      else - ((text_w - screen_w) div 2))"

text \<open>The bounding box of a circle with centre \<open>(cx, cy)\<close> and radius \<open>r\<close> is the square
  with top-left corner \<open>(cx - r, cy - r)\<close> and side \<open>2r\<close>; a point is a hit when it lies
  strictly inside the box of a \<open>FireCircle\<close>.\<close>

fun spec_hit :: "int \<Rightarrow> int \<Rightarrow> ScrollableObject \<Rightarrow> bool" where
  "spec_hit px py (FireCircle cx cy county acreage fires (Some r) colour) =
     (let left = cx - r; top = cy - r; side = 2 * r
      in left < px \<and> px < left + side \<and> top < py \<and> py < top + side)"
| "spec_hit px py _ = False"

section \<open>Example data\<close>

text \<open>A C library whose \<open>pow\<close> returns the value above the exact square whenever
  the square is not a binary64 value.\<close>

definition example_libm :: libm where
  "example_libm x = True"

text \<open>Two seasons with the figures of the specification's end-to-end example and the
  top five of the doctest of \<open>CaliFireSeason\<close>; the theorems are instantiated at them.\<close>

definition example_top_five :: "int \<Rightarrow> CaliFire list" where
  "example_top_five year =
     [CaliFire year ''Butte'' 47647 ''Lightning'' 117,
      CaliFire year ''Mariposa'' 34091 ''Other'' 133,
      CaliFire year ''Riverside'' 30305 ''Structure'' 245,
      CaliFire year ''Shasta'' 27936 ''Lightning'' 12,
      CaliFire year ''Butte'' 23344 ''Arson'' 351]"

text \<open>A font measure for the examples: every character 11 pixels wide, every text 24
  pixels high.\<close>

definition example_font_size :: font_size where
  "example_font_size label_font label_text = (word_of_int (11 * int (length label_text)), 24)"

definition example_seasons :: "(int, CaliFireSeason) dict" where
  "example_seasons =
     [(2019, CaliFireSeason 2019 5000 1000000 (example_top_five 2019)),
      (2020, CaliFireSeason 2020 6000 1500000 (example_top_five 2020))]"

text \<open>The scene of the season 2019 of the example, with the map at its initial place.\<close>

definition example_scene :: "ScrollableObject list" where
  "example_scene =
     [TextLabel 97 160 ''Total # of fires: 5000    Total acreage burned: 1000000''
        CALIBRI_24_B BLACK,
      TextLabel 317 200 ''Top Five Fires:'' CALIBRI_24_B BLACK,
      Image 190 240 ''county_map.jpg'',
      FireCircle 302 367 ''Butte'' 70991
        [CaliFire 2019 ''Butte'' 47647 ''Lightning'' 117,
         CaliFire 2019 ''Butte'' 23344 ''Arson'' 351]
        (Some 20) (Some ORANGE),
      FireCircle 366 476 ''Mariposa'' 34091
        [CaliFire 2019 ''Mariposa'' 34091 ''Other'' 133] (Some 15) (Some YELLOW),
      FireCircle 526 670 ''Riverside'' 30305
        [CaliFire 2019 ''Riverside'' 30305 ''Structure'' 245] (Some 15) (Some YELLOW),
      FireCircle 289 306 ''Shasta'' 27936
        [CaliFire 2019 ''Shasta'' 27936 ''Lightning'' 12] (Some 15) (Some YELLOW)]"

section \<open>Properties of the float model\<close>

lemma round_half_even_of_int: "round_half_even (of_int n) = n"
  by (simp add: round_half_even_def)

lemma ilog2_le:
  assumes "0 < q"
  shows "2 powi (ilog2 q) \<le> q"
proof -
  obtain a b where ab: "quotient_of q = (a, b)" by (cases "quotient_of q")
  have bpos: "0 < b" using ab by (rule quotient_of_denom_pos)
  have q: "q = of_int a / of_int b" using ab by (rule quotient_of_div)
  have apos: "0 < a" using assms bpos q by (simp add: zero_less_divide_iff)
  define La where "La = floorlog 2 (nat a)"
  define Lb where "Lb = floorlog 2 (nat b)"
  define k where "k = int La - int Lb"
  have il: "ilog2 q = (if 2 powi k \<le> q then k else k - 1)"
    by (simp add: ilog2_def ab La_def Lb_def k_def Let_def)
  show ?thesis
  proof (cases "2 powi k \<le> q")
    case True
    then show ?thesis by (simp add: il)
  next
    case False
    have "2 ^ (La - 1) \<le> nat a"
      using floorlog_bounds[of "nat a" 2] apos by (simp add: La_def)
    then have a1: "(2::rat) ^ (La - 1) \<le> of_int a"
      using apos by (metis of_nat_le_iff of_nat_numeral of_nat_power nat_0_le less_imp_le of_int_of_nat_eq order.strict_implies_order)
    have "nat b < 2 ^ Lb"
      using floorlog_bounds[of "nat b" 2] bpos by (simp add: Lb_def)
    then have b1: "of_int b < (2::rat) ^ Lb"
      using bpos by (metis of_nat_less_iff of_nat_numeral of_nat_power nat_0_le less_imp_le of_int_of_nat_eq)
    have La_pos: "0 < La" using apos by (simp add: La_def floorlog_def)
    have "k - 1 = int (La - 1) - int Lb"
      using La_pos by (simp add: k_def of_nat_diff)
    then have "2 powi (k - 1) = (2::rat) ^ (La - 1) / 2 ^ Lb"
      by (simp add: power_int_diff)
    also have "\<dots> \<le> of_int a / 2 ^ Lb"
      using a1 by (simp add: divide_right_mono)
    also have "\<dots> \<le> of_int a / of_int b"
      using b1 bpos apos by (simp add: frac_le)
    finally have "2 powi (k - 1) \<le> rat_of_int a / rat_of_int b" .
    with q have "2 powi (k - 1) \<le> q" by simp
    with False show ?thesis by (simp add: il)
  qed
qed


text \<open>A rational with a significand of at most 53 bits and an exponent within the range
  of binary64 is a multiple of the unit of its binade, so every rounding leaves it as it
  is.\<close>

lemma grid_exact:
  assumes "q = of_int m / 2 ^ k" and "\<bar>m\<bar> < 2 ^ 53" and "k \<le> 1074" and "q \<noteq> 0"
  shows "\<exists>n. \<bar>q\<bar> / 2 powi (max (ilog2 \<bar>q\<bar> - 52) (- 1074)) = of_int n"
proof -
  from assms(4) have qpos: "0 < \<bar>q\<bar>" by simp
  define p where "p = max (ilog2 \<bar>q\<bar> - 52) (- 1074)"
  have absq: "\<bar>q\<bar> = of_int \<bar>m\<bar> / 2 ^ k"
    by (simp add: assms(1))
  have "of_int \<bar>m\<bar> < (2::rat) ^ 53"
    using assms(2) by (metis of_int_less_iff of_int_numeral of_int_power)
  then have "\<bar>q\<bar> < 2 ^ 53 / 2 ^ k"
    unfolding absq by (simp add: divide_strict_right_mono)
  also have "\<dots> = 2 powi (53 - int k)"
    by (simp add: power_int_diff)
  finally have "(2::rat) powi (ilog2 \<bar>q\<bar>) < 2 powi (53 - int k)"
    using ilog2_le[OF qpos] by simp
  then have "ilog2 \<bar>q\<bar> < 53 - int k"
    using power_int_increasing[of "53 - int k" "ilog2 \<bar>q\<bar>" "2::rat"] by (cases "ilog2 \<bar>q\<bar> < 53 - int k") simp_all
  then have ple: "p \<le> - int k"
    using assms(3) by (simp add: p_def)
  define j where "j = nat (- int k - p)"
  have pj: "p = - int k - int j"
    using ple by (simp add: j_def)
  have "\<bar>q\<bar> / 2 powi p = of_int (\<bar>m\<bar> * 2 ^ j)"
    unfolding absq pj by (simp add: power_int_diff power_int_minus field_simps)
  then show ?thesis
    unfolding p_def by blast
qed

lemma rne53_exact:
  assumes "q = of_int m / 2 ^ k" and "\<bar>m\<bar> < 2 ^ 53" and "k \<le> 1074"
  shows "rne53 q = q"
proof (cases "q = 0")
  case True
  then show ?thesis by (simp add: rne53_def)
next
  case False
  define p where "p = max (ilog2 \<bar>q\<bar> - 52) (- 1074)"
  from grid_exact[OF assms False] obtain n where scaled: "\<bar>q\<bar> / 2 powi p = of_int n"
    unfolding p_def by blast
  have "rne53 q = sgn q * of_int (round_half_even (\<bar>q\<bar> / 2 powi p)) * 2 powi p"
    using False by (simp add: rne53_def p_def Let_def)
  also have "\<dots> = sgn q * of_int n * 2 powi p"
    by (simp only: scaled round_half_even_of_int)
  also have "\<dots> = sgn q * (\<bar>q\<bar> / 2 powi p) * 2 powi p"
    by (simp only: scaled)
  also have "\<dots> = sgn q * \<bar>q\<bar>"
    by simp
  also have "\<dots> = q"
    by (simp add: sgn_mult_abs)
  finally show ?thesis .
qed

lemma round_down53_exact:
  assumes "q = of_int m / 2 ^ k" and "\<bar>m\<bar> < 2 ^ 53" and "k \<le> 1074" and "0 < q"
  shows "round_down53 q = q"
proof -
  define p where "p = max (ilog2 q - 52) (- 1074)"
  from assms(4) have "q \<noteq> 0" and a: "\<bar>q\<bar> = q" by simp_all
  from grid_exact[OF assms(1-3) this(1)] obtain n where scaled: "q / 2 powi p = of_int n"
    unfolding p_def a by blast
  have "round_down53 q = of_int \<lfloor>q / 2 powi p\<rfloor> * 2 powi p"
    by (simp add: round_down53_def p_def Let_def)
  also have "\<dots> = (q / 2 powi p) * 2 powi p"
    by (simp only: scaled floor_of_int)
  finally show ?thesis by simp
qed

lemma round_up53_exact:
  assumes "q = of_int m / 2 ^ k" and "\<bar>m\<bar> < 2 ^ 53" and "k \<le> 1074" and "0 < q"
  shows "round_up53 q = q"
proof -
  define p where "p = max (ilog2 q - 52) (- 1074)"
  from assms(4) have "q \<noteq> 0" and a: "\<bar>q\<bar> = q" by simp_all
  from grid_exact[OF assms(1-3) this(1)] obtain n where scaled: "q / 2 powi p = of_int n"
    unfolding p_def a by blast
  have "round_up53 q = of_int \<lceil>q / 2 powi p\<rceil> * 2 powi p"
    by (simp add: round_up53_def p_def Let_def)
  also have "\<dots> = (q / 2 powi p) * 2 powi p"
    by (simp only: scaled ceiling_of_int)
  finally show ?thesis by simp
qed

text \<open>The two functions the rounding is made of do what their names say: \<open>ilog2\<close> is
  the exponent of the binade of its argument, \<open>round_half_even\<close> is within a half of
  its argument, and so \<open>rne53\<close> is within half a unit in the last place.\<close>

lemma ilog2_less:
  assumes "0 < q"
  shows "q < 2 powi (ilog2 q + 1)"
proof -
  obtain a b where ab: "quotient_of q = (a, b)" by (cases "quotient_of q")
  have bpos: "0 < b" using ab by (rule quotient_of_denom_pos)
  have q: "q = of_int a / of_int b" using ab by (rule quotient_of_div)
  have apos: "0 < a" using assms bpos q by (simp add: zero_less_divide_iff)
  define La where "La = floorlog 2 (nat a)"
  define Lb where "Lb = floorlog 2 (nat b)"
  define k where "k = int La - int Lb"
  have il: "ilog2 q = (if 2 powi k \<le> q then k else k - 1)"
    by (simp add: ilog2_def ab La_def Lb_def k_def Let_def)
  show ?thesis
  proof (cases "2 powi k \<le> q")
    case False
    then show ?thesis by (simp add: il)
  next
    case True
    have "nat a < 2 ^ La"
      using floorlog_bounds[of "nat a" 2] apos by (simp add: La_def)
    then have a1: "rat_of_int a < 2 ^ La"
      using apos by (metis of_nat_less_iff of_nat_numeral of_nat_power nat_0_le less_imp_le of_int_of_nat_eq)
    have "2 ^ (Lb - 1) \<le> nat b"
      using floorlog_bounds[of "nat b" 2] bpos by (simp add: Lb_def)
    then have b1: "(2::rat) ^ (Lb - 1) \<le> of_int b"
      using bpos by (metis of_nat_le_iff of_nat_numeral of_nat_power nat_0_le less_imp_le of_int_of_nat_eq)
    have Lb_pos: "0 < Lb" using bpos by (simp add: Lb_def floorlog_def)
    have "k + 1 = int La - int (Lb - 1)"
      using Lb_pos by (simp add: k_def of_nat_diff)
    then have e: "2 powi (k + 1) = (2::rat) ^ La / 2 ^ (Lb - 1)"
      by (simp add: power_int_diff)
    have "rat_of_int a / rat_of_int b \<le> rat_of_int a / 2 ^ (Lb - 1)"
      using b1 apos by (simp add: frac_le)
    also have "\<dots> < 2 ^ La / 2 ^ (Lb - 1)"
      using a1 by (simp add: divide_strict_right_mono)
    finally have "q < 2 powi (k + 1)"
      using q e by simp
    with True show ?thesis by (simp add: il)
  qed
qed

lemma round_half_even_near: "\<bar>rat_of_int (round_half_even q) - q\<bar> \<le> 1 / 2"
proof -
  have "rat_of_int \<lfloor>q\<rfloor> \<le> q" and "q < rat_of_int \<lfloor>q\<rfloor> + 1"
    by linarith+
  then show ?thesis
    by (auto simp: round_half_even_def Let_def abs_le_iff)
qed

lemma rne53_near:
  assumes "q \<noteq> 0"
  shows "\<bar>rne53 q - q\<bar> \<le> 2 powi (max (ilog2 \<bar>q\<bar> - 52) (- 1074)) / 2"
proof -
  define p where "p = max (ilog2 \<bar>q\<bar> - 52) (- 1074)"
  define u :: rat where "u = 2 powi p"
  have u: "0 < u" by (simp add: u_def)
  have "rne53 q - q = sgn q * (of_int (round_half_even (\<bar>q\<bar> / u)) * u - \<bar>q\<bar>)"
    using assms by (simp add: rne53_def p_def u_def Let_def algebra_simps abs_sgn)
  also have "\<dots> = sgn q * ((of_int (round_half_even (\<bar>q\<bar> / u)) - \<bar>q\<bar> / u) * u)"
    using u by (simp add: algebra_simps)
  finally have "\<bar>rne53 q - q\<bar> = \<bar>of_int (round_half_even (\<bar>q\<bar> / u)) - \<bar>q\<bar> / u\<bar> * u"
    using assms u by (simp add: abs_mult abs_sgn_eq)
  also have "\<dots> \<le> 1 / 2 * u"
    using round_half_even_near[of "\<bar>q\<bar> / u"] u by (intro mult_right_mono) simp_all
  finally show ?thesis by (simp add: u_def p_def)
qed

text \<open>The two values next to a positive rational enclose it and are less than one unit
  in the last place apart; the nearest value is one of them. So a \<open>pow\<close> that rounds
  correctly is one of the libraries the model ranges over.\<close>

lemma round_down53_le: "0 < q \<Longrightarrow> round_down53 q \<le> q"
proof -
  assume "0 < q"
  define u :: rat where "u = 2 powi (max (ilog2 q - 52) (- 1074))"
  have u: "0 < u" by (simp add: u_def)
  have "rat_of_int \<lfloor>q / u\<rfloor> * u \<le> (q / u) * u"
    using u by (intro mult_right_mono) simp_all
  then show ?thesis
    using u by (simp add: round_down53_def u_def Let_def)
qed

lemma round_up53_ge: "0 < q \<Longrightarrow> q \<le> round_up53 q"
proof -
  assume "0 < q"
  define u :: rat where "u = 2 powi (max (ilog2 q - 52) (- 1074))"
  have u: "0 < u" by (simp add: u_def)
  have "(q / u) * u \<le> rat_of_int \<lceil>q / u\<rceil> * u"
    using u by (intro mult_right_mono) simp_all
  then show ?thesis
    using u by (simp add: round_up53_def u_def Let_def)
qed

lemma round_up53_near:
  "round_up53 q - round_down53 q \<le> 2 powi (max (ilog2 q - 52) (- 1074))"
proof -
  define u :: rat where "u = 2 powi (max (ilog2 q - 52) (- 1074))"
  have u: "0 < u" by (simp add: u_def)
  have "\<lceil>q / u\<rceil> - \<lfloor>q / u\<rfloor> \<le> 1"
    by linarith
  then have "rat_of_int (\<lceil>q / u\<rceil> - \<lfloor>q / u\<rfloor>) \<le> 1"
    by (metis of_int_le_iff of_int_1)
  then have "rat_of_int (\<lceil>q / u\<rceil> - \<lfloor>q / u\<rfloor>) * u \<le> 1 * u"
    using u by (intro mult_right_mono) simp_all
  then show ?thesis
    by (simp add: round_up53_def round_down53_def u_def Let_def algebra_simps)
qed

lemma rne53_down_or_up:
  assumes "0 < q"
  shows "rne53 q = round_down53 q \<or> rne53 q = round_up53 q"
proof -
  define s where "s = q / 2 powi (max (ilog2 q - 52) (- 1074))"
  have a: "\<bar>q\<bar> = q" and s: "sgn q = 1" using assms by simp_all
  have "round_half_even s = \<lfloor>s\<rfloor> \<or> round_half_even s = \<lceil>s\<rceil>"
  proof (cases "of_int \<lfloor>s\<rfloor> = s")
    case True
    then have "round_half_even s = \<lfloor>s\<rfloor>"
      by (metis round_half_even_of_int floor_of_int)
    then show ?thesis by simp
  next
    case False
    then have "\<lceil>s\<rceil> = \<lfloor>s\<rfloor> + 1"
      by (metis ceiling_altdef)
    then show ?thesis
      by (auto simp: round_half_even_def Let_def)
  qed
  then show ?thesis
    using assms by (auto simp: rne53_def round_down53_def round_up53_def Let_def a s s_def)
qed

lemma ilog2_unique:
  assumes "2 powi k \<le> q" and "q < 2 powi (k + 1)"
  shows "ilog2 q = k"
proof -
  have pos: "0 < q"
    using assms(1) by (rule order.strict_trans2[rotated]) simp
  have "(2::rat) powi (ilog2 q) < 2 powi (k + 1)"
    using ilog2_le[OF pos] assms(2) by simp
  then have a: "ilog2 q < k + 1"
    using power_int_increasing[of "k + 1" "ilog2 q" "2::rat"] by (cases "ilog2 q < k + 1") simp_all
  have "(2::rat) powi k < 2 powi (ilog2 q + 1)"
    using ilog2_less[OF pos] assms(1) by simp
  then have b: "k < ilog2 q + 1"
    using power_int_increasing[of "ilog2 q + 1" k "2::rat"] by (cases "k < ilog2 q + 1") simp_all
  from a b show ?thesis by simp
qed

text \<open>An example of the difference: the square of 197371730 lies halfway between two
  binary64 values. The multiplication \<open>x * x\<close> returns the lower one, whose significand
  is even; \<open>x ** 2\<close> returns the one the library chooses.\<close>

lemma ilog2_example: "ilog2 38955599803192900 = 55"
  by (rule ilog2_unique) simp_all

lemma c_pow2_between_example:
  "c_pow2 libm 197371730 =
     Finite (if libm 197371730 then 38955599803192904 else 38955599803192896)"
  "rne53 (197371730 * 197371730) = 38955599803192896"
proof -
  have f: "\<lfloor>(9738899950798225::rat) / 2\<rfloor> = 4869449975399112"
    by (rule floor_unique) simp_all
  have c: "\<lceil>(9738899950798225::rat) / 2\<rceil> = 4869449975399113"
    by (rule ceiling_unique) simp_all
  show "c_pow2 libm 197371730 =
     Finite (if libm 197371730 then 38955599803192904 else 38955599803192896)"
    by (simp add: c_pow2_def round_up53_def round_down53_def ilog2_example Let_def f c)
  show "rne53 (197371730 * 197371730) = 38955599803192896"
    by (simp add: rne53_def round_half_even_def ilog2_example Let_def f)
qed

lemma overflow_threshold_large: "2 ^ 53 \<le> overflow_threshold"
  by (simp add: overflow_threshold_def)

lemma round64_zero: "round64 0 = Finite 0"
  using overflow_threshold_large by (simp add: round64_def rne53_def)

lemma round64_exact:
  assumes "q = of_int m / 2 ^ k" and "\<bar>m\<bar> < 2 ^ 53" and "k \<le> 1074"
  shows "round64 q = Finite q"
proof -
  have "\<bar>q\<bar> = of_int \<bar>m\<bar> / 2 ^ k"
    by (simp add: assms(1))
  also have "\<dots> \<le> of_int \<bar>m\<bar>"
    by (simp add: divide_le_eq mult_le_cancel_left1 flip: of_int_abs)
  also have "\<dots> < 2 ^ 53"
    using assms(2) by (metis of_int_less_iff of_int_numeral of_int_power)
  finally have "\<bar>q\<bar> < overflow_threshold"
    using overflow_threshold_large by simp
  then show ?thesis
    by (simp add: round64_def rne53_exact[OF assms])
qed

lemma round64_quarter:
  assumes "of_int \<lfloor>4 * q\<rfloor> = 4 * q" and "\<bar>q\<bar> < 2 ^ 51"
  shows "round64 q = Finite q"
proof (rule round64_exact[where m = "\<lfloor>4 * q\<rfloor>" and k = 2])
  show "q = of_int \<lfloor>4 * q\<rfloor> / 2 ^ 2"
    unfolding assms(1) by simp
  have "\<bar>4 * q\<bar> < 2 ^ 53"
    using assms(2) by (simp add: abs_mult)
  then have "\<bar>rat_of_int \<lfloor>4 * q\<rfloor>\<bar> < 2 ^ 53"
    by (simp only: assms(1))
  then show "\<bar>\<lfloor>4 * q\<rfloor>\<bar> < 2 ^ 53"
    by (metis of_int_abs of_int_less_iff of_int_numeral of_int_power)
  show "(2::nat) \<le> 1074" by simp
qed


lemma int_to_float_small:
  assumes "\<bar>i\<bar> < 2 ^ 51"
  shows "int_to_float i = Inr (Finite (of_int i))"
proof -
  have lt: "\<bar>rat_of_int i\<bar> < 2 ^ 51"
    using assms by (metis of_int_abs of_int_less_iff of_int_numeral of_int_power)
  have r: "round64 (of_int i) = Finite (of_int i)"
    by (rule round64_quarter) (use lt in simp_all)
  have "\<bar>rat_of_int i\<bar> < overflow_threshold"
    using lt overflow_threshold_large by simp
  then show ?thesis
    using r by (simp add: int_to_float_def round64_def)
qed

lemma int_truediv_quarter:
  assumes "b \<noteq> 0"
    and "of_int \<lfloor>4 * (rat_of_int a / of_int b)\<rfloor> = 4 * (rat_of_int a / of_int b)"
    and "\<bar>rat_of_int a / of_int b\<bar> < 2 ^ 51"
  shows "int_truediv a b = Inr (Finite (of_int a / of_int b))"
proof -
  have r: "round64 (of_int a / of_int b) = Finite (of_int a / of_int b)"
    using assms(2,3) by (rule round64_quarter)
  have "\<bar>rat_of_int a / of_int b\<bar> < overflow_threshold"
    using assms(3) overflow_threshold_large by simp
  then show ?thesis
    using r assms(1) by (simp add: int_truediv_def round64_def)
qed

lemma c_pow2_quarter:
  assumes "of_int \<lfloor>4 * (x * x)\<rfloor> = 4 * (x * x)" and "\<bar>x * x\<bar> < 2 ^ 51" and "x \<noteq> 0"
  shows "c_pow2 libm x = Finite (x * x)"
proof -
  define q where "q = x * x"
  have pos: "0 < q" using assms(3) by (auto simp: q_def zero_less_mult_iff)
  have rep: "q = of_int \<lfloor>4 * q\<rfloor> / 2 ^ 2"
    unfolding q_def assms(1) by simp
  have "\<bar>4 * q\<bar> < 2 ^ 53"
    using assms(2) by (simp add: abs_mult q_def)
  then have "\<bar>rat_of_int \<lfloor>4 * q\<rfloor>\<bar> < 2 ^ 53"
    using assms(1) by (simp only: q_def)
  then have m: "\<bar>\<lfloor>4 * q\<rfloor>\<bar> < 2 ^ 53"
    by (metis of_int_abs of_int_less_iff of_int_numeral of_int_power)
  have d: "round_down53 q = q"
    by (rule round_down53_exact[OF rep m _ pos]) simp
  have u: "round_up53 q = q"
    by (rule round_up53_exact[OF rep m _ pos]) simp
  have "q < 2 ^ 51" using assms(2) by (simp add: q_def)
  also have "\<dots> < (2::rat) ^ 1024" by simp
  finally have "\<not> 2 ^ 1024 \<le> q" by simp
  then show ?thesis
    by (simp add: c_pow2_def d u Let_def flip: q_def)
qed

lemma float_pow2_quarter:
  assumes "of_int \<lfloor>4 * (x * x)\<rfloor> = 4 * (x * x)" and "\<bar>x * x\<bar> < 2 ^ 51"
  shows "float_pow2 libm (Finite x) = Inr (Finite (x * x))"
proof (cases "x = 0 \<or> \<bar>x\<bar> = 1")
  case True
  then show ?thesis by (auto simp: abs_if split: if_splits)
next
  case False
  then have "\<bar>x\<bar> \<noteq> 0" by simp
  with assms have "c_pow2 libm \<bar>x\<bar> = Finite (\<bar>x\<bar> * \<bar>x\<bar>)"
    by (intro c_pow2_quarter) simp_all
  then show ?thesis
    using False by simp
qed

text \<open>The rules that evaluate a computation all of whose values are multiples of a
  quarter below \<open>2 ^ 51\<close>: it is exact.\<close>

lemmas float_eval =
  round64_quarter int_to_float_small int_truediv_quarter float_pow2_quarter
  py_bind_def list_get_def py_sum_def float_sub_def extrapolate_f_def

lemma extrapolate_num_fires_two_seasons: "extrapolate_num_fires libm [2019, 2020] [5000, 6000] 1 = Inr [7000]"
  by (simp add: extrapolate_num_fires_def float_eval upt_rec_numeral upto_rec_numeral Let_def
        del: float_pow2.simps(1))

lemma extrapolate_acreages_two_seasons: "extrapolate_acreages libm [5000, 6000] [1000000, 1500000] [7000] = Inr [2000000]"
  by (simp add: extrapolate_acreages_def float_eval upt_rec_numeral upto_rec_numeral Let_def
        del: float_pow2.simps(1))

lemma half_int_exact:
  assumes "\<bar>a\<bar> < 2 ^ 51"
  shows "round64 (rat_of_int a / 2) = Finite (rat_of_int a / 2)"
proof (rule round64_exact[where m = a and k = 1])
  show "rat_of_int a / 2 = rat_of_int a / 2 ^ 1" by simp
  show "\<bar>a\<bar> < 2 ^ 53" using assms by simp
  show "(1::nat) \<le> 1074" by simp
qed

lemma int_truediv_two:
  assumes "\<bar>a\<bar> < 2 ^ 51"
  shows "int_truediv a 2 = Inr (Finite (rat_of_int a / 2))"
proof -
  have "\<bar>rat_of_int a\<bar> < 2 ^ 51"
    using assms by (metis of_int_abs of_int_less_iff of_int_numeral of_int_power)
  then have "\<bar>rat_of_int a / 2\<bar> < 2 ^ 53"
    by simp
  then have "\<bar>rat_of_int a / 2\<bar> < overflow_threshold"
    using overflow_threshold_large by linarith
  then show ?thesis
    using half_int_exact[OF assms] by (simp add: int_truediv_def round64_def)
qed

lemma float_to_int_half:
  "float_to_int (Finite (rat_of_int a / 2)) = Inr (if 0 \<le> a then a div 2 else - ((- a) div 2))"
proof -
  have f: "\<lfloor>rat_of_int a / 2\<rfloor> = a div 2"
    using floor_divide_of_int_eq[of a 2, where ?'a = rat] by simp
  have "\<lceil>rat_of_int a / 2\<rceil> = - \<lfloor>rat_of_int (- a) / 2\<rfloor>"
    by (simp add: ceiling_def)
  also have "\<dots> = - ((- a) div 2)"
    using floor_divide_of_int_eq[of "- a" 2, where ?'a = rat] by simp
  finally have c: "\<lceil>rat_of_int a / 2\<rceil> = - ((- a) div 2)" .
  show ?thesis
    by (simp add: f c zero_le_divide_iff)
qed

section \<open>Exceptions, loops and dictionaries\<close>

lemma py_bind_Inl: "py_bind (Inl e) k = Inl e"
  by (simp add: py_bind_def)

lemma py_bind_Inr: "py_bind (Inr v) k = k v"
  by (simp add: py_bind_def)

lemma fold_result_append:
  "fold_result (\<lambda>acc k. py_bind (g k) (\<lambda>c. Inr (acc @ [c]))) acc ks =
     py_bind (map_result g ks) (\<lambda>cs. Inr (acc @ cs))"
proof (induction ks arbitrary: acc)
  case Nil
  show ?case by (simp add: py_bind_Inr)
next
  case (Cons k ks)
  show ?case
    by (cases "g k"; cases "map_result g ks")
       (simp_all add: py_bind_Inl py_bind_Inr Cons.IH)
qed

lemma map_result_all_Inr:
  assumes "\<forall>x \<in> set xs. \<exists>y. g x = Inr y"
  shows "\<exists>ys. map_result g xs = Inr ys \<and> list_all2 (\<lambda>x y. g x = Inr y) xs ys"
  using assms
proof (induction xs)
  case Nil
  show ?case by simp
next
  case (Cons x xs)
  then obtain y ys where "g x = Inr y" "map_result g xs = Inr ys"
    "list_all2 (\<lambda>x y. g x = Inr y) xs ys"
    by auto
  then show ?case
    by (intro exI[of _ "y # ys"]) (simp add: py_bind_def)
qed

lemma map_result_only_error:
  assumes "\<exists>x \<in> set xs. g x = Inl e" and "\<forall>x \<in> set xs. g x = Inl e \<or> (\<exists>y. g x = Inr y)"
  shows "map_result g xs = Inl e"
  using assms
proof (induction xs)
  case Nil
  then show ?case by simp
next
  case (Cons x xs)
  show ?case
  proof (cases "g x")
    case (Inl e')
    with Cons.prems(2) have "e' = e" by auto
    with Inl show ?thesis by (simp add: py_bind_def)
  next
    case (Inr y)
    with Cons.prems have "\<exists>x \<in> set xs. g x = Inl e" by auto
    with Cons.IH Cons.prems(2) have "map_result g xs = Inl e" by simp
    with Inr show ?thesis by (simp add: py_bind_def)
  qed
qed

lemma map_of_dict_set: "map_of (dict_set d k v) = (map_of d)(k \<mapsto> v)"
  by (induction d) auto

lemma keys_dict_set_present: "k \<in> fst ` set d \<Longrightarrow> map fst (dict_set d k v) = map fst d"
  by (induction d) force+

lemma keys_dict_set_absent: "k \<notin> fst ` set d \<Longrightarrow> map fst (dict_set d k v) = map fst d @ [k]"
  by (induction d) auto

lemma keys_dict_set:
  "map fst (dict_set d k v) = (if k \<in> fst ` set d then map fst d else map fst d @ [k])"
  by (simp add: keys_dict_set_present keys_dict_set_absent)

lemma dict_set_absent: "k \<notin> fst ` set d \<Longrightarrow> dict_set d k v = d @ [(k, v)]"
  by (induction d) auto

lemma dict_set_twice: "dict_set (dict_set d k u) k v = dict_set d k v"
  by (induction d) auto

lemma set_dict_set: "set (dict_set d k v) \<subseteq> set d \<union> {(k, v)}"
  by (induction d) (auto split: if_splits)

lemma dict_in_keys: "dict_in k d \<longleftrightarrow> k \<in> fst ` set d"
  by (simp add: dict_in_def map_of_eq_None_iff)

lemma dict_get_Inr: "dict_get d k = Inr v \<longleftrightarrow> map_of d k = Some v"
  by (simp add: dict_get_def split: option.splits)

lemma dict_get_error: "dict_get d k = Inl e \<longleftrightarrow> e = KeyError \<and> map_of d k = None"
  by (auto simp: dict_get_def split: option.splits)

lemma dict_append_Inr:
  "dict_append d k v =
     Inr (dict_set d k ((case map_of d k of None \<Rightarrow> [] | Some vs \<Rightarrow> vs) @ [v]))"
  by (cases "map_of d k")
     (simp_all add: dict_append_def dict_in_def dict_get_def py_bind_def map_of_dict_set
        dict_set_twice)

lemma group_fold:
  "\<exists>d'. fold_result (\<lambda>d x. dict_append d (kf x) (vf x)) d xs = Inr d'
      \<and> (\<forall>k. map_of d' k =
             (if map_of d k = None \<and> k \<notin> kf ` set xs then None
              else Some ((case map_of d k of None \<Rightarrow> [] | Some vs \<Rightarrow> vs)
                         @ map vf (filter (\<lambda>x. kf x = k) xs))))
      \<and> fst ` set d' = fst ` set d \<union> kf ` set xs
      \<and> (distinct (map fst d) \<longrightarrow> distinct (map fst d'))"
proof (induction xs arbitrary: d)
  case Nil
  show ?case by (auto split: option.splits)
next
  case (Cons x xs)
  define d1 where
    "d1 = dict_set d (kf x) ((case map_of d (kf x) of None \<Rightarrow> [] | Some vs \<Rightarrow> vs) @ [vf x])"
  have step: "dict_append d (kf x) (vf x) = Inr d1"
    by (simp add: dict_append_Inr d1_def)
  from Cons.IH[of d1] obtain d' where
    run: "fold_result (\<lambda>d x. dict_append d (kf x) (vf x)) d1 xs = Inr d'"
    and look: "\<And>k. map_of d' k =
             (if map_of d1 k = None \<and> k \<notin> kf ` set xs then None
              else Some ((case map_of d1 k of None \<Rightarrow> [] | Some vs \<Rightarrow> vs)
                         @ map vf (filter (\<lambda>x. kf x = k) xs)))"
    and keys: "fst ` set d' = fst ` set d1 \<union> kf ` set xs"
    and dist: "distinct (map fst d1) \<longrightarrow> distinct (map fst d')"
    by blast
  have m1: "map_of d1 = (map_of d)(kf x \<mapsto>
      (case map_of d (kf x) of None \<Rightarrow> [] | Some vs \<Rightarrow> vs) @ [vf x])"
    by (simp add: d1_def map_of_dict_set)
  have k1: "map fst d1 = (if kf x \<in> fst ` set d then map fst d else map fst d @ [kf x])"
    by (simp add: d1_def keys_dict_set)
  have k2: "fst ` set d1 = insert (kf x) (fst ` set d)"
    using arg_cong[OF k1, of set] by (auto split: if_splits)
  have "fold_result (\<lambda>d x. dict_append d (kf x) (vf x)) d (x # xs) = Inr d'"
    by (simp add: step run py_bind_def)
  moreover have "map_of d' k =
             (if map_of d k = None \<and> k \<notin> kf ` set (x # xs) then None
              else Some ((case map_of d k of None \<Rightarrow> [] | Some vs \<Rightarrow> vs)
                         @ map vf (filter (\<lambda>x. kf x = k) (x # xs))))" for k
    by (simp add: look m1 split: option.splits)
  moreover have "fst ` set d' = fst ` set d \<union> kf ` set (x # xs)"
    unfolding keys k2 by auto
  moreover have "distinct (map fst d) \<longrightarrow> distinct (map fst d')"
    using dist by (simp add: k1 split: if_splits)
  ultimately show ?case by blast
qed

lemma group_fold_succeeds:
  "\<exists>d'. fold_result (\<lambda>d x. dict_append d (kf x) (vf x)) d xs = Inr d'"
  using group_fold[of kf vf d xs] by blast

lemma group_fold_lookup:
  assumes "fold_result (\<lambda>d x. dict_append d (kf x) (vf x)) d xs = Inr d'"
  shows "map_of d' k =
             (if map_of d k = None \<and> k \<notin> kf ` set xs then None
              else Some ((case map_of d k of None \<Rightarrow> [] | Some vs \<Rightarrow> vs)
                         @ map vf (filter (\<lambda>x. kf x = k) xs)))"
proof -
  from group_fold[of kf vf d xs] obtain d2 where
    "fold_result (\<lambda>d x. dict_append d (kf x) (vf x)) d xs = Inr d2"
    and "\<forall>k. map_of d2 k =
             (if map_of d k = None \<and> k \<notin> kf ` set xs then None
              else Some ((case map_of d k of None \<Rightarrow> [] | Some vs \<Rightarrow> vs)
                         @ map vf (filter (\<lambda>x. kf x = k) xs)))"
    by (elim exE conjE)
  with assms show ?thesis by simp
qed

lemma group_fold_keys:
  assumes "fold_result (\<lambda>d x. dict_append d (kf x) (vf x)) d xs = Inr d'"
  shows "fst ` set d' = fst ` set d \<union> kf ` set xs"
    and "distinct (map fst d) \<Longrightarrow> distinct (map fst d')"
proof -
  from group_fold[of kf vf d xs] obtain d2 where
    "fold_result (\<lambda>d x. dict_append d (kf x) (vf x)) d xs = Inr d2"
    and "fst ` set d2 = fst ` set d \<union> kf ` set xs"
    and "distinct (map fst d) \<longrightarrow> distinct (map fst d2)"
    by (elim exE conjE)
  with assms show "fst ` set d' = fst ` set d \<union> kf ` set xs"
    and "distinct (map fst d) \<Longrightarrow> distinct (map fst d')" by simp_all
qed

section \<open>The scrollable objects\<close>

subsection \<open>translate\<close>

lemma translate_coords:
  "get_coords (translate obj dx dy) = (fst (get_coords obj) + dx, snd (get_coords obj) + dy)"
  by (cases obj) simp_all

lemma translate_calls_coords:
  "get_coords (translate_calls obj ds) =
     (fst (get_coords obj) + sum_list (map fst ds), snd (get_coords obj) + sum_list (map snd ds))"
  unfolding translate_calls_def
proof (induction ds arbitrary: obj)
  case Nil
  show ?case by simp
next
  case (Cons d ds)
  obtain dx dy where d: "d = (dx, dy)" by (cases d)
  show ?case
    by (simp add: d Cons.IH translate_coords)
qed

lemma sum_list_map_mset:
  fixes g :: "'a \<Rightarrow> int"
  assumes "mset xs = mset ys"
  shows "sum_list (map g xs) = sum_list (map g ys)"
proof -
  have "sum_mset (image_mset g (mset xs)) = sum_mset (image_mset g (mset ys))"
    using assms by simp
  then show ?thesis
    by (simp only: sum_mset_sum_list flip: mset_map)
qed

text \<open>
  Claim C8. \<open>translate\<close> is additive and order-independent: after any sequence of
  \<open>translate(dx_i, dy_i)\<close> calls on an object at \<open>(x, y)\<close>, \<open>get_coords\<close> returns
  \<open>(x + \<Sum> dx_i, y + \<Sum> dy_i)\<close>; the same calls in any other order give the same
  coordinates; two calls commute, and equal the single call with the summed offsets.
\<close>

theorem translate_additive_order_independent:
  "get_coords (translate_calls obj ds) =
     (fst (get_coords obj) + sum_list (map fst ds), snd (get_coords obj) + sum_list (map snd ds))
   \<and> (\<forall>ds'. mset ds' = mset ds \<longrightarrow>
          get_coords (translate_calls obj ds') = get_coords (translate_calls obj ds))
   \<and> get_coords (translate (translate obj dx1 dy1) dx2 dy2) =
       get_coords (translate (translate obj dx2 dy2) dx1 dy1)
   \<and> get_coords (translate (translate obj dx1 dy1) dx2 dy2) =
       get_coords (translate obj (dx1 + dx2) (dy1 + dy2))"
proof (intro conjI allI impI)
  show "get_coords (translate_calls obj ds) =
     (fst (get_coords obj) + sum_list (map fst ds), snd (get_coords obj) + sum_list (map snd ds))"
    by (rule translate_calls_coords)
next
  fix ds' :: "(int \<times> int) list"
  assume "mset ds' = mset ds"
  then show "get_coords (translate_calls obj ds') = get_coords (translate_calls obj ds)"
    by (simp add: translate_calls_coords sum_list_map_mset[of ds' ds])
next
  show "get_coords (translate (translate obj dx1 dy1) dx2 dy2) =
       get_coords (translate (translate obj dx2 dy2) dx1 dy1)"
    by (simp add: translate_coords)
next
  show "get_coords (translate (translate obj dx1 dy1) dx2 dy2) =
       get_coords (translate obj (dx1 + dx2) (dy1 + dy2))"
    by (simp add: translate_coords)
qed

theorem translate_additive_order_independent_witness:
  "mset [(3, 4), (1, 2), (- 5, 7)] = mset [(1, 2), (- 5, 7), (3 :: int, 4 :: int)]
   \<and> get_coords (translate_calls (TextLabel 10 20 ''a'' CALIBRI_14_B BLACK) [(3, 4), (1, 2), (- 5, 7)])
       = get_coords (translate_calls (TextLabel 10 20 ''a'' CALIBRI_14_B BLACK) [(1, 2), (- 5, 7), (3, 4)])
   \<and> get_coords (translate_calls (TextLabel 10 20 ''a'' CALIBRI_14_B BLACK) [(1, 2), (- 5, 7), (3, 4)])
       = (9, 33)"
proof -
  have m: "mset [(3, 4), (1, 2), (- 5, 7)] = mset [(1, 2), (- 5, 7), (3 :: int, 4 :: int)]"
    by simp
  from translate_additive_order_independent
         [of "TextLabel 10 20 ''a'' CALIBRI_14_B BLACK" "[(1, 2), (- 5, 7), (3, 4)]"]
  have "get_coords (translate_calls (TextLabel 10 20 ''a'' CALIBRI_14_B BLACK) [(1, 2), (- 5, 7), (3, 4)])
          = (9, 33)"
    and "\<forall>ds'. mset ds' = mset [(1, 2), (- 5, 7), (3 :: int, 4 :: int)] \<longrightarrow>
          get_coords (translate_calls (TextLabel 10 20 ''a'' CALIBRI_14_B BLACK) ds')
          = get_coords (translate_calls (TextLabel 10 20 ''a'' CALIBRI_14_B BLACK) [(1, 2), (- 5, 7), (3, 4)])"
    by simp_all
  with m show ?thesis by blast
qed

subsection \<open>FireCircle: colour and radius\<close>

lemma foldl_acreage:
  "foldl (\<lambda>acreage fire. acreage + fire_acreage fire) a fires =
     a + sum_list (map fire_acreage fires)"
  by (induction fires arbitrary: a) simp_all

lemma scan_bounds_cases:
  "scan_bounds a =
     (if a < 0 then (None, None)
      else if a < 10000 then (Some YELLOW, Some 10)
      else if a < 20000 then (Some YELLOW, Some 12)
      else if a < 40000 then (Some YELLOW, Some 15)
      else if a < 60000 then (Some ORANGE, Some 18)
      else if a < 80000 then (Some ORANGE, Some 20)
      else if a < 100000 then (Some RED, Some 22)
      else (Some RED, Some 25))"
  by (simp add: scan_bounds_def bounds_def)

lemma spec_circle_style_cases:
  "spec_circle_style a =
     (if a < 0 then None
      else if a < 10000 then Some (YELLOW, 10)
      else if a < 20000 then Some (YELLOW, 12)
      else if a < 40000 then Some (YELLOW, 15)
      else if a < 60000 then Some (ORANGE, 18)
      else if a < 80000 then Some (ORANGE, 20)
      else if a < 100000 then Some (RED, 22)
      else Some (RED, 25))"
  by (simp add: spec_circle_style_def spec_threshold_table_def YELLOW_def ORANGE_def RED_def)

lemma FireCircle_init_Cons:
  "FireCircle_init x y (fire0 # rest) =
     (if fire_year fire0 > 2020
      then Inr (FireCircle x y (fire_county fire0) 0 (fire0 # rest) (Some 25) (Some LIGHT_RED))
      else Inr (FireCircle x y (fire_county fire0) (sum_list (map fire_acreage (fire0 # rest)))
                  (fire0 # rest)
                  (snd (scan_bounds (sum_list (map fire_acreage (fire0 # rest)))))
                  (fst (scan_bounds (sum_list (map fire_acreage (fire0 # rest)))))))"
  by (simp add: Let_def foldl_acreage split: prod.splits)

text \<open>
  Claim C4. For a non-empty record list whose first record's year is at most 2020, the
  colour and radius of the circle are those of the highest lower bound of the threshold
  table that the accumulated acreage of all the records satisfies; an accumulated
  acreage of 39999 gives (yellow, 15), of 40000 (orange, 18), of 150000 (red, 25). When
  the first record's year is greater than 2020 the colour is light red and the radius
  25, whatever the acreages.
\<close>

theorem FireCircle_style_by_highest_bound:
  assumes "fires \<noteq> []"
  shows "\<exists>circle. FireCircle_init x y fires = Inr circle \<and>
           (if fire_year (hd fires) \<le> 2020
            then (case spec_circle_style (sum_list (map fire_acreage fires)) of
                    Some (c, r) \<Rightarrow> circle_colour circle = Some c \<and> circle_radius circle = Some r
                  | None \<Rightarrow> circle_colour circle = None \<and> circle_radius circle = None)
                 \<and> (sum_list (map fire_acreage fires) = 39999 \<longrightarrow>
                        circle_colour circle = Some YELLOW \<and> circle_radius circle = Some 15)
                 \<and> (sum_list (map fire_acreage fires) = 40000 \<longrightarrow>
                        circle_colour circle = Some ORANGE \<and> circle_radius circle = Some 18)
                 \<and> (sum_list (map fire_acreage fires) = 150000 \<longrightarrow>
                        circle_colour circle = Some RED \<and> circle_radius circle = Some 25)
            else circle_colour circle = Some LIGHT_RED \<and> circle_radius circle = Some 25)"
proof -
  obtain fire0 rest where fires: "fires = fire0 # rest"
    using assms by (cases fires) auto
  define a where "a = sum_list (map fire_acreage fires)"
  show ?thesis
  proof (cases "fire_year fire0 \<le> 2020")
    case True
    define circle where
      "circle = FireCircle x y (fire_county fire0) a fires (snd (scan_bounds a)) (fst (scan_bounds a))"
    have init: "FireCircle_init x y fires = Inr circle"
      using True by (simp only: fires FireCircle_init_Cons a_def circle_def) simp
    have col: "circle_colour circle = fst (scan_bounds a)"
      and rad: "circle_radius circle = snd (scan_bounds a)"
      by (simp_all add: circle_def)
    have "case spec_circle_style a of
            Some (c, r) \<Rightarrow> circle_colour circle = Some c \<and> circle_radius circle = Some r
          | None \<Rightarrow> circle_colour circle = None \<and> circle_radius circle = None"
      unfolding col rad by (simp add: scan_bounds_cases spec_circle_style_cases)
    moreover have "a = 39999 \<longrightarrow> circle_colour circle = Some YELLOW \<and> circle_radius circle = Some 15"
      unfolding col rad by (simp add: scan_bounds_cases)
    moreover have "a = 40000 \<longrightarrow> circle_colour circle = Some ORANGE \<and> circle_radius circle = Some 18"
      unfolding col rad by (simp add: scan_bounds_cases)
    moreover have "a = 150000 \<longrightarrow> circle_colour circle = Some RED \<and> circle_radius circle = Some 25"
      unfolding col rad by (simp add: scan_bounds_cases)
    moreover have "fire_year (hd fires) \<le> 2020"
      using True by (simp add: fires)
    ultimately show ?thesis
      unfolding a_def using init by (intro exI[of _ circle]) simp
  next
    case False
    then show ?thesis
      by (simp add: fires FireCircle_init_Cons)
  qed
qed

theorem FireCircle_style_by_highest_bound_witness:
  "[CaliFire 2019 ''Butte'' 25000 ''Lightning'' 117, CaliFire 2019 ''Butte'' 15000 ''Arson'' 351] \<noteq> []
   \<and> (\<exists>circle. FireCircle_init 302 367
          [CaliFire 2019 ''Butte'' 25000 ''Lightning'' 117, CaliFire 2019 ''Butte'' 15000 ''Arson'' 351]
          = Inr circle
        \<and> circle_colour circle = Some ORANGE \<and> circle_radius circle = Some 18)"
  using FireCircle_style_by_highest_bound
          [of "[CaliFire 2019 ''Butte'' 25000 ''Lightning'' 117, CaliFire 2019 ''Butte'' 15000 ''Arson'' 351]"
              302 367]
  by (simp add: spec_circle_style_cases)

text \<open>
  Claim C10. For every non-empty record list with positive acreages,
  \<open>FireCircle.__init__\<close> assigns a colour and a radius; the radius is one of 10, 12, 15,
  18, 20, 22, 25; and \<open>get_bounds\<close> returns a square whose side is at least 20.
\<close>

theorem FireCircle_always_styled:
  assumes "fires \<noteq> []" and "\<forall>fire \<in> set fires. 0 < fire_acreage fire"
  shows "\<exists>circle r c. FireCircle_init x y fires = Inr circle
           \<and> circle_radius circle = Some r \<and> circle_colour circle = Some c
           \<and> r \<in> {10, 12, 15, 18, 20, 22, 25}
           \<and> get_bounds circle = Inr (x - r, y - r, 2 * r, 2 * r)
           \<and> 20 \<le> 2 * r"
proof -
  obtain fire0 rest where fires: "fires = fire0 # rest"
    using assms(1) by (cases fires) auto
  define a where "a = sum_list (map fire_acreage (fire0 # rest))"
  have "0 \<le> sum_list (map fire_acreage fires)"
    using assms(2) by (intro sum_list_nonneg) auto
  then have a0: "0 \<le> a" by (simp add: a_def fires)
  show ?thesis
  proof (cases "fire_year fire0 > 2020")
    case True
    then have "FireCircle_init x y fires =
        Inr (FireCircle x y (fire_county fire0) 0 fires (Some 25) (Some LIGHT_RED))"
      by (simp add: fires FireCircle_init_Cons)
    then show ?thesis
      by (intro exI[of _ "FireCircle x y (fire_county fire0) 0 fires (Some 25) (Some LIGHT_RED)"]
            exI[of _ 25] exI[of _ LIGHT_RED]) simp
  next
    case False
    then have init: "FireCircle_init x y fires =
        Inr (FireCircle x y (fire_county fire0) a fires (snd (scan_bounds a)) (fst (scan_bounds a)))"
      by (simp only: fires FireCircle_init_Cons a_def) simp
    have "\<exists>c r. scan_bounds a = (Some c, Some r) \<and> r \<in> {10, 12, 15, 18, 20, 22, 25}"
      using a0 by (simp add: scan_bounds_cases YELLOW_def ORANGE_def RED_def)
    then obtain c r where cr: "scan_bounds a = (Some c, Some r)"
      and r: "r \<in> {10, 12, 15, 18, 20, 22, 25}"
      by blast
    have "20 \<le> 2 * r" using r by auto
    then show ?thesis
      using r
      by (intro exI[of _ "FireCircle x y (fire_county fire0) a fires (Some r) (Some c)"]
            exI[of _ r] exI[of _ c])
         (simp add: init cr)
  qed
qed

theorem FireCircle_always_styled_witness:
  "[CaliFire 2008 ''Shasta'' 27936 ''Lightning'' 12] \<noteq> []
   \<and> list_all (\<lambda>fire. 0 < fire_acreage fire) [CaliFire 2008 ''Shasta'' 27936 ''Lightning'' 12]
   \<and> (\<exists>circle r. FireCircle_init 289 306 [CaliFire 2008 ''Shasta'' 27936 ''Lightning'' 12] = Inr circle
        \<and> circle_radius circle = Some r \<and> get_bounds circle = Inr (289 - r, 306 - r, 2 * r, 2 * r)
        \<and> 20 \<le> 2 * r)"
proof -
  have h1: "[CaliFire 2008 ''Shasta'' 27936 ''Lightning'' 12] \<noteq> []" by simp
  have h2: "\<forall>fire \<in> set [CaliFire 2008 ''Shasta'' 27936 ''Lightning'' 12]. 0 < fire_acreage fire"
    by simp
  have h3: "list_all (\<lambda>fire. 0 < fire_acreage fire) [CaliFire 2008 ''Shasta'' 27936 ''Lightning'' 12]"
    by simp
  from FireCircle_always_styled[OF h1 h2, of 289 306] h1 h3 show ?thesis
    by blast
qed

section \<open>The forecaster\<close>

subsection \<open>The sampling population and the causes of each county\<close>

lemma fold_collect_fire:
  "fold_result collect_fire (all_counties, counties_causes) fs =
     py_bind (fold_result (\<lambda>d fire. dict_append d (fire_county fire) (fire_cause fire))
                counties_causes fs)
       (\<lambda>d. Inr (all_counties @ map fire_county fs, d))"
proof (induction fs arbitrary: all_counties counties_causes)
  case Nil
  show ?case by (simp add: py_bind_def)
next
  case (Cons fire fs)
  obtain d1 where d1: "dict_append counties_causes (fire_county fire) (fire_cause fire) = Inr d1"
    by (simp add: dict_append_Inr)
  have step: "collect_fire (all_counties, counties_causes) fire =
      Inr (all_counties @ [fire_county fire], d1)"
    by (simp add: collect_fire_def d1 py_bind_def)
  show ?case
    by (simp add: step d1 py_bind_def Cons.IH[of "all_counties @ [fire_county fire]" d1])
qed

lemma collect_counties_result:
  "\<exists>counties_causes.
     collect_counties seasons = Inr (map fire_county (historical_fires seasons), counties_causes)
     \<and> (\<forall>county. map_of counties_causes county =
           (if county \<notin> fire_county ` set (historical_fires seasons) then None
            else Some (map fire_cause
                        (filter (\<lambda>fire. fire_county fire = county) (historical_fires seasons)))))"
proof -
  obtain d where run:
    "fold_result (\<lambda>d fire. dict_append d (fire_county fire) (fire_cause fire)) []
        (historical_fires seasons) = Inr d"
    using group_fold_succeeds[of fire_county fire_cause "[]" "historical_fires seasons"] by blast
  have "collect_counties seasons = Inr (map fire_county (historical_fires seasons), d)"
    by (simp add: collect_counties_def fold_collect_fire run py_bind_def)
  moreover have "map_of d county =
           (if county \<notin> fire_county ` set (historical_fires seasons) then None
            else Some (map fire_cause
                        (filter (\<lambda>fire. fire_county fire = county) (historical_fires seasons))))"
    for county
    using group_fold_lookup[OF run, of county] by simp
  ultimately show ?thesis by blast
qed

lemma collect_counties_causes_nonempty:
  assumes "collect_counties seasons = Inr (all_counties, counties_causes)"
  shows "all_counties = map fire_county (historical_fires seasons)"
    and "\<forall>county \<in> set all_counties.
           \<exists>causes. map_of counties_causes county = Some causes \<and> causes \<noteq> []
             \<and> set causes \<subseteq> fire_cause ` set (historical_fires seasons)"
proof -
  from collect_counties_result[of seasons] obtain d where
    d: "collect_counties seasons = Inr (map fire_county (historical_fires seasons), d)"
    and look: "\<forall>county. map_of d county =
           (if county \<notin> fire_county ` set (historical_fires seasons) then None
            else Some (map fire_cause
                        (filter (\<lambda>fire. fire_county fire = county) (historical_fires seasons))))"
    by (elim exE conjE)
  from d assms have eq: "all_counties = map fire_county (historical_fires seasons)"
    "counties_causes = d" by simp_all
  show "all_counties = map fire_county (historical_fires seasons)"
    by (rule eq(1))
  show "\<forall>county \<in> set all_counties.
           \<exists>causes. map_of counties_causes county = Some causes \<and> causes \<noteq> []
             \<and> set causes \<subseteq> fire_cause ` set (historical_fires seasons)"
  proof
    fix county assume "county \<in> set all_counties"
    then have c: "county \<in> fire_county ` set (historical_fires seasons)"
      by (simp add: eq(1))
    then have "map_of counties_causes county =
        Some (map fire_cause (filter (\<lambda>fire. fire_county fire = county) (historical_fires seasons)))"
      using look by (simp add: eq(2))
    moreover have "filter (\<lambda>fire. fire_county fire = county) (historical_fires seasons) \<noteq> []"
      using c by (auto simp: filter_empty_conv)
    ultimately show "\<exists>causes. map_of counties_causes county = Some causes \<and> causes \<noteq> []
           \<and> set causes \<subseteq> fire_cause ` set (historical_fires seasons)"
      by auto
  qed
qed

subsection \<open>Random draws\<close>

lemma random_choice_nonempty:
  assumes "seq \<noteq> []"
  shows "\<exists>c rng'. random_choice seq rng = Inr (c, rng') \<and> c \<in> set seq"
  using assms by (simp add: random_choice_def)

lemma choices_nonempty:
  assumes "seq \<noteq> []"
  shows "\<exists>cs rng'. choices k seq rng = Inr (cs, rng') \<and> length cs = k \<and> set cs \<subseteq> set seq"
proof (induction k arbitrary: rng)
  case 0
  show ?case by simp
next
  case (Suc k)
  from random_choice_nonempty[OF assms, of rng] obtain c rng1
    where c: "random_choice seq rng = Inr (c, rng1)" "c \<in> set seq" by blast
  from Suc[of rng1] obtain cs rng2
    where cs: "choices k seq rng1 = Inr (cs, rng2)" "length cs = k" "set cs \<subseteq> set seq" by blast
  show ?case
    using c cs by (simp add: py_bind_def)
qed

lemma choices_empty: "choices (Suc k) [] rng = Inl IndexError"
  by (simp add: random_choice_def py_bind_def)

lemma top_five_loop_result:
  assumes "\<forall>county \<in> set counties. \<exists>causes. map_of counties_causes county = Some causes \<and> causes \<noteq> []"
  shows "\<exists>top_five rng'.
           top_five_loop year counties_causes counties so_far rng = Inr (so_far @ top_five, rng')
           \<and> list_all2 (\<lambda>county fire. \<exists>fire_cause causes.
                  fire = CaliFire year county 90000 fire_cause 32
                  \<and> map_of counties_causes county = Some causes \<and> fire_cause \<in> set causes)
                counties top_five"
  using assms
proof (induction counties arbitrary: so_far rng)
  case Nil
  show ?case by simp
next
  case (Cons county rest)
  from Cons.prems obtain causes
    where causes: "map_of counties_causes county = Some causes" "causes \<noteq> []" by auto
  from random_choice_nonempty[OF causes(2), of rng] obtain c rng1
    where c: "random_choice causes rng = Inr (c, rng1)" "c \<in> set causes" by blast
  from Cons.IH[of "so_far @ [CaliFire year county 90000 c 32]" rng1] Cons.prems
  obtain top_five rng2 where
    rest: "top_five_loop year counties_causes rest (so_far @ [CaliFire year county 90000 c 32]) rng1
             = Inr ((so_far @ [CaliFire year county 90000 c 32]) @ top_five, rng2)"
    and all2: "list_all2 (\<lambda>county fire. \<exists>fire_cause causes.
                  fire = CaliFire year county 90000 fire_cause 32
                  \<and> map_of counties_causes county = Some causes \<and> fire_cause \<in> set causes)
                rest top_five"
    by auto
  have "top_five_loop year counties_causes (county # rest) so_far rng =
          Inr (so_far @ (CaliFire year county 90000 c 32 # top_five), rng2)"
    using causes c rest by (simp add: py_bind_def dict_get_def predict_cause_def)
  moreover have "list_all2 (\<lambda>county fire. \<exists>fire_cause causes.
                  fire = CaliFire year county 90000 fire_cause 32
                  \<and> map_of counties_causes county = Some causes \<and> fire_cause \<in> set causes)
                (county # rest) (CaliFire year county 90000 c 32 # top_five)"
    using all2 causes c by simp
  ultimately show ?case by blast
qed

lemma predict_next_top_five_result:
  assumes "all_counties \<noteq> []"
    and "\<forall>county \<in> set all_counties.
           \<exists>causes. map_of counties_causes county = Some causes \<and> causes \<noteq> []"
  shows "\<exists>top_five rng'.
           predict_next_top_five year all_counties counties_causes rng = Inr (top_five, rng')
           \<and> length top_five = 5
           \<and> (\<forall>fire \<in> set top_five.
                 fire_year fire = year \<and> fire_acreage fire = 90000
                 \<and> fire_structures_destroyed fire = 32
                 \<and> fire_county fire \<in> set all_counties
                 \<and> (\<exists>causes. map_of counties_causes (fire_county fire) = Some causes
                       \<and> fire_cause fire \<in> set causes))"
proof -
  from choices_nonempty[OF assms(1), of 5 rng] obtain five rng1
    where five: "choices 5 all_counties rng = Inr (five, rng1)" "length five = 5"
      "set five \<subseteq> set all_counties" by blast
  have "\<forall>county \<in> set five. \<exists>causes. map_of counties_causes county = Some causes \<and> causes \<noteq> []"
    using assms(2) five(3) by blast
  from top_five_loop_result[OF this, of year "[]" rng1] obtain top_five rng2 where
    run: "top_five_loop year counties_causes five [] rng1 = Inr (top_five, rng2)"
    and all2: "list_all2 (\<lambda>county fire. \<exists>fire_cause causes.
                  fire = CaliFire year county 90000 fire_cause 32
                  \<and> map_of counties_causes county = Some causes \<and> fire_cause \<in> set causes)
                five top_five"
    by auto
  have "predict_next_top_five year all_counties counties_causes rng = Inr (top_five, rng2)"
    by (simp add: predict_next_top_five_def predict_next_five_counties_def five(1) run py_bind_def)
  moreover have "length top_five = 5"
    using list_all2_lengthD[OF all2] five(2) by simp
  moreover have "fire_year fire = year \<and> fire_acreage fire = 90000
                 \<and> fire_structures_destroyed fire = 32
                 \<and> fire_county fire \<in> set all_counties
                 \<and> (\<exists>causes. map_of counties_causes (fire_county fire) = Some causes
                       \<and> fire_cause fire \<in> set causes)"
    if "fire \<in> set top_five" for fire
  proof -
    from that obtain i where i: "i < length top_five" "top_five ! i = fire"
      by (auto simp: in_set_conv_nth)
    with all2 have "\<exists>fire_cause causes.
                  fire = CaliFire year (five ! i) 90000 fire_cause 32
                  \<and> map_of counties_causes (five ! i) = Some causes \<and> fire_cause \<in> set causes"
      by (auto simp: list_all2_conv_all_nth)
    moreover have "five ! i \<in> set all_counties"
      using five(3) i(1) list_all2_lengthD[OF all2] by (auto simp: subset_iff)
    ultimately show ?thesis by auto
  qed
  ultimately show ?thesis by blast
qed

lemma predict_next_top_five_empty:
  "predict_next_top_five year [] counties_causes rng = Inl IndexError"
  by (simp add: predict_next_top_five_def predict_next_five_counties_def py_bind_def
        random_choice_def eval_nat_numeral)

subsection \<open>The loop that stores the forecast seasons\<close>

lemma map_result_length: "map_result g xs = Inr ys \<Longrightarrow> length ys = length xs"
proof (induction xs arbitrary: ys)
  case Nil
  then show ?case by simp
next
  case (Cons x xs)
  then show ?case
    by (auto simp: py_bind_def split: sum.splits)
qed

lemma length_upto_from_1: "length [1..n] = nat n"
  by simp

lemma extrapolate_num_fires_length:
  assumes "extrapolate_num_fires libm years fires n = Inr next_fires"
  shows "length next_fires = nat n"
proof -
  from assms obtain a b where
    "map_result (\<lambda>i. extrapolate_f a b (2020 + i)) [1..n] = Inr next_fires"
    by (auto simp: extrapolate_num_fires_def py_bind_def Let_def split: sum.splits)
  from map_result_length[OF this] show ?thesis by simp
qed

lemma extrapolate_acreages_length:
  assumes "extrapolate_acreages libm fires acreages next_fires = Inr next_acreages"
  shows "length next_acreages = length next_fires"
proof -
  from assms obtain a b where
    "map_result (\<lambda>fire. extrapolate_f a b fire) next_fires = Inr next_acreages"
    by (auto simp: extrapolate_acreages_def py_bind_def Let_def split: sum.splits)
  from map_result_length[OF this] show ?thesis by simp
qed

lemma predict_loop_entries:
  assumes "(k, season) \<in> set (snd (predict_loop nf na ac cc indices s rng))"
  shows "(k, season) \<in> set s
     \<or> (\<exists>rng1 rng2. predict_next_top_five k ac cc rng1 = Inr (season_top_five season, rng2))"
  using assms
proof (induction indices arbitrary: s rng)
  case Nil
  then show ?case by simp
next
  case (Cons i rest)
  show ?case
  proof (cases "list_get nf (nat (i - 1))")
    case (Inl e)
    with Cons.prems show ?thesis by (simp add: Let_def)
  next
    case fires: (Inr fires)
    show ?thesis
    proof (cases "list_get na (nat (i - 1))")
      case (Inl e)
      with Cons.prems fires show ?thesis by (simp add: Let_def)
    next
      case acreage: (Inr acreage)
      show ?thesis
      proof (cases "predict_next_top_five (2020 + i) ac cc rng")
        case (Inl e)
        with Cons.prems fires acreage show ?thesis by (simp add: Let_def)
      next
        case (Inr res)
        obtain top_five rng' where res: "res = (top_five, rng')" by (cases res)
        define s1 where
          "s1 = dict_set s (2020 + i) (CaliFireSeason (2020 + i) fires acreage top_five)"
        have "predict_loop nf na ac cc (i # rest) s rng = predict_loop nf na ac cc rest s1 rng'"
          by (simp add: fires acreage Inr res s1_def Let_def)
        with Cons.prems have "(k, season) \<in> set (snd (predict_loop nf na ac cc rest s1 rng'))"
          by simp
        from Cons.IH[OF this] show ?thesis
        proof
          assume "(k, season) \<in> set s1"
          then have "(k, season) \<in> set s
              \<or> (k, season) = (2020 + i, CaliFireSeason (2020 + i) fires acreage top_five)"
            using set_dict_set[of s "2020 + i"] unfolding s1_def by blast
          then show ?thesis
            using Inr res by auto
        qed blast
      qed
    qed
  qed
qed

lemma predict_loop_appends:
  assumes "\<forall>i \<in> set indices. 2020 + i \<notin> fst ` set s" and "distinct indices"
    and "\<forall>i \<in> set indices. nat (i - 1) < length nf \<and> nat (i - 1) < length na"
    and "ac \<noteq> []"
    and "\<forall>county \<in> set ac. \<exists>causes. map_of cc county = Some causes \<and> causes \<noteq> []"
  shows "\<exists>new. predict_loop nf na ac cc indices s rng = (None, s @ new)
           \<and> list_all2 (\<lambda>i entry. \<exists>top_five.
                  entry = (2020 + i,
                           CaliFireSeason (2020 + i) (nf ! nat (i - 1)) (na ! nat (i - 1)) top_five)
                  \<and> length top_five = 5
                  \<and> (\<forall>fire \<in> set top_five.
                        fire_year fire = 2020 + i \<and> fire_acreage fire = 90000
                        \<and> fire_structures_destroyed fire = 32))
                indices new"
  using assms(1,2,3)
proof (induction indices arbitrary: s rng)
  case Nil
  show ?case by simp
next
  case (Cons i rest)
  from predict_next_top_five_result[OF assms(4,5), of "2020 + i" rng]
  obtain top_five rng' where
    tf: "predict_next_top_five (2020 + i) ac cc rng = Inr (top_five, rng')"
    and len: "length top_five = 5"
    and recs: "\<forall>fire \<in> set top_five.
                 fire_year fire = 2020 + i \<and> fire_acreage fire = 90000
                 \<and> fire_structures_destroyed fire = 32"
    by blast
  define entry where
    "entry = (2020 + i, CaliFireSeason (2020 + i) (nf ! nat (i - 1)) (na ! nat (i - 1)) top_five)"
  have absent: "2020 + i \<notin> fst ` set s"
    using Cons.prems(1) by simp
  have step: "predict_loop nf na ac cc (i # rest) s rng =
      predict_loop nf na ac cc rest (s @ [entry]) rng'"
    using Cons.prems(3) tf by (simp add: list_get_def dict_set_absent[OF absent] entry_def Let_def)
  have "\<forall>j \<in> set rest. 2020 + j \<notin> fst ` set (s @ [entry])"
    using Cons.prems(1,2) by (auto simp: entry_def)
  moreover have "distinct rest"
    using Cons.prems(2) by simp
  moreover have "\<forall>j \<in> set rest. nat (j - 1) < length nf \<and> nat (j - 1) < length na"
    using Cons.prems(3) by simp
  ultimately obtain new where
    new: "predict_loop nf na ac cc rest (s @ [entry]) rng' = (None, (s @ [entry]) @ new)"
    and all2: "list_all2 (\<lambda>i entry. \<exists>top_five.
                  entry = (2020 + i,
                           CaliFireSeason (2020 + i) (nf ! nat (i - 1)) (na ! nat (i - 1)) top_five)
                  \<and> length top_five = 5
                  \<and> (\<forall>fire \<in> set top_five.
                        fire_year fire = 2020 + i \<and> fire_acreage fire = 90000
                        \<and> fire_structures_destroyed fire = 32))
                rest new"
    using Cons.IH[of "s @ [entry]" rng'] by blast
  have "predict_loop nf na ac cc (i # rest) s rng = (None, s @ (entry # new))"
    unfolding step new by simp
  moreover have "list_all2 (\<lambda>i entry. \<exists>top_five.
                  entry = (2020 + i,
                           CaliFireSeason (2020 + i) (nf ! nat (i - 1)) (na ! nat (i - 1)) top_five)
                  \<and> length top_five = 5
                  \<and> (\<forall>fire \<in> set top_five.
                        fire_year fire = 2020 + i \<and> fire_acreage fire = 90000
                        \<and> fire_structures_destroyed fire = 32))
                (i # rest) (entry # new)"
    using all2 len recs by (simp add: entry_def)
  ultimately show ?case by blast
qed

lemma predict_loop_empty_population:
  assumes "nat (i - 1) < length nf" and "nat (i - 1) < length na"
  shows "predict_loop nf na [] cc (i # rest) s rng = (Some IndexError, s)"
  using assms by (simp add: list_get_def predict_next_top_five_empty Let_def)

subsection \<open>predict\_fire\_season\_data\<close>

lemma predict_fire_season_data_shape:
  assumes "\<forall>year \<in> fst ` set seasons. year \<le> 2020"
  shows "(\<exists>e. predict_fire_season_data libm seasons n rng = (Some e, seasons))
       \<or> (\<exists>new. predict_fire_season_data libm seasons n rng = (None, seasons @ new)
             \<and> map fst new = map (\<lambda>i. 2020 + i) [1..n])"
proof -
  from collect_counties_result[of seasons] obtain cc where
    coll: "collect_counties seasons = Inr (map fire_county (historical_fires seasons), cc)"
    by (elim exE conjE)
  define ac where "ac = map fire_county (historical_fires seasons)"
  have cc_ok: "\<forall>county \<in> set ac. \<exists>causes. map_of cc county = Some causes \<and> causes \<noteq> []"
    using collect_counties_causes_nonempty(2)[OF coll] unfolding ac_def by blast
  define years where "years = map (\<lambda>(year, season). season_year season) seasons"
  define num_fires where "num_fires = map (\<lambda>(year, season). season_fires season) seasons"
  define acreages where "acreages = map (\<lambda>(year, season). season_acreage season) seasons"
  show ?thesis
  proof (cases "extrapolate_num_fires libm years num_fires n")
    case (Inl e)
    then have "predict_fire_season_data libm seasons n rng = (Some e, seasons)"
      by (simp add: predict_fire_season_data_def coll Let_def
            flip: years_def num_fires_def acreages_def)
    then show ?thesis by blast
  next
    case nf: (Inr nf)
    show ?thesis
    proof (cases "extrapolate_acreages libm num_fires acreages nf")
      case (Inl e)
      then have "predict_fire_season_data libm seasons n rng = (Some e, seasons)"
        by (simp add: predict_fire_season_data_def coll nf Let_def
              flip: years_def num_fires_def acreages_def)
      then show ?thesis by blast
    next
      case na: (Inr na)
      have run: "predict_fire_season_data libm seasons n rng =
          predict_loop nf na ac cc [1..n] seasons rng"
        by (simp add: predict_fire_season_data_def coll nf na Let_def ac_def
              flip: years_def num_fires_def acreages_def)
      have lnf: "length nf = nat n"
        using nf by (rule extrapolate_num_fires_length)
      have lna: "length na = nat n"
        using extrapolate_acreages_length[OF na] lnf by simp
      have lens: "\<forall>i \<in> set [1..n]. nat (i - 1) < length nf \<and> nat (i - 1) < length na"
        by (auto simp: lnf lna)
      show ?thesis
      proof (cases "ac = []")
        case False
        have "\<forall>i \<in> set [1..n]. 2020 + i \<notin> fst ` set seasons"
          using assms by fastforce
        from predict_loop_appends[OF this distinct_upto lens False cc_ok, of rng]
        obtain new where
          new: "predict_loop nf na ac cc [1..n] seasons rng = (None, seasons @ new)"
          and all2: "list_all2 (\<lambda>i entry. \<exists>top_five.
                  entry = (2020 + i,
                           CaliFireSeason (2020 + i) (nf ! nat (i - 1)) (na ! nat (i - 1)) top_five)
                  \<and> length top_five = 5
                  \<and> (\<forall>fire \<in> set top_five.
                        fire_year fire = 2020 + i \<and> fire_acreage fire = 90000
                        \<and> fire_structures_destroyed fire = 32))
                [1..n] new"
          by (elim exE conjE)
        have "map fst new = map (\<lambda>i. 2020 + i) [1..n]"
        proof (rule nth_equalityI)
          show "length (map fst new) = length (map (\<lambda>i. 2020 + i) [1..n])"
            using list_all2_lengthD[OF all2] by simp
          fix j assume "j < length (map fst new)"
          then have j: "j < length new" by simp
          then have "\<exists>top_five. new ! j = (2020 + [1..n] ! j,
               CaliFireSeason (2020 + [1..n] ! j) (nf ! nat ([1..n] ! j - 1))
                 (na ! nat ([1..n] ! j - 1)) top_five)"
            using all2 by (auto simp: list_all2_conv_all_nth)
          then show "map fst new ! j = map (\<lambda>i. 2020 + i) [1..n] ! j"
            using j list_all2_lengthD[OF all2] by auto
        qed
        with new run show ?thesis by simp
      next
        case True
        show ?thesis
        proof (cases "1 \<le> n")
          case n: True
          then have idx: "[1..n] = 1 # [2..n]"
            by (simp add: upto_rec1)
          have "nat (1 - 1) < length nf" "nat (1 - 1) < length na"
            using n by (simp_all add: lnf lna)
          from predict_loop_empty_population[OF this, of cc "[2..n]" seasons rng]
          have "predict_fire_season_data libm seasons n rng = (Some IndexError, seasons)"
            by (simp add: run True idx)
          then show ?thesis by blast
        next
          case False
          then have "[1..n] = []" by simp
          then have "predict_fire_season_data libm seasons n rng = (None, seasons @ [])"
            by (simp add: run)
          moreover have "map fst [] = map (\<lambda>i. 2020 + i) [1..n]"
            using \<open>[1..n] = []\<close> by simp
          ultimately show ?thesis by blast
        qed
      qed
    qed
  qed
qed

text \<open>
  Claim C3. For every season mapping whose keys are all at most 2020 and every \<open>n\<close>,
  \<open>predict_fire_season_data\<close> only adds entries: the dict after the call is the dict
  before it followed by new entries, whose keys are the years 2021 to \<open>2020 + n\<close> when
  the call returns and of which there are none when it raises. So every historical year
  still maps to its original season, and a year that is new lies between 2021 and
  \<open>2020 + n\<close>. (The claim's other hypotheses, a non-empty mapping and \<open>n > 0\<close>, are not
  needed.)
\<close>

theorem predict_fire_season_data_only_adds:
  assumes "\<forall>year \<in> fst ` set seasons. year \<le> 2020"
  shows "\<exists>new. snd (predict_fire_season_data libm seasons n rng) = seasons @ new
           \<and> (fst (predict_fire_season_data libm seasons n rng) = None \<longrightarrow>
                 map fst new = map (\<lambda>i. 2020 + i) [1..n])
           \<and> (fst (predict_fire_season_data libm seasons n rng) \<noteq> None \<longrightarrow> new = [])
           \<and> (\<forall>year season. map_of seasons year = Some season \<longrightarrow>
                 map_of (snd (predict_fire_season_data libm seasons n rng)) year = Some season)
           \<and> (\<forall>year. dict_in year (snd (predict_fire_season_data libm seasons n rng))
                   \<and> \<not> dict_in year seasons \<longrightarrow> 2021 \<le> year \<and> year \<le> 2020 + n)"
proof -
  from predict_fire_season_data_shape[OF assms, of libm n rng]
  consider e where "predict_fire_season_data libm seasons n rng = (Some e, seasons)"
    | new where "predict_fire_season_data libm seasons n rng = (None, seasons @ new)"
        "map fst new = map (\<lambda>i. 2020 + i) [1..n]"
    by blast
  then show ?thesis
  proof cases
    case 1
    then show ?thesis
      by (intro exI[of _ "[]"]) simp
  next
    case 2
    have "2021 \<le> year \<and> year \<le> 2020 + n"
      if "dict_in year (seasons @ new)" "\<not> dict_in year seasons" for year
    proof -
      from that have "year \<in> set (map fst new)"
        by (auto simp: dict_in_keys)
      then show ?thesis
        unfolding 2(2) by auto
    qed
    moreover have "map_of (seasons @ new) year = Some season"
      if "map_of seasons year = Some season" for year season
      using that by (simp add: map_add_Some_iff)
    ultimately show ?thesis
      using 2 by (intro exI[of _ new]) simp
  qed
qed

theorem predict_fire_season_data_only_adds_witness:
  "list_all (\<lambda>year. year \<le> 2020) (map fst example_seasons)
   \<and> (\<exists>new. snd (predict_fire_season_data example_libm example_seasons 3 (\<lambda>i. 7 * i + 3))
               = example_seasons @ new)
   \<and> map_of (snd (predict_fire_season_data example_libm example_seasons 3 (\<lambda>i. 7 * i + 3))) 2019
       = Some (CaliFireSeason 2019 5000 1000000 (example_top_five 2019))"
proof -
  have h: "\<forall>year \<in> fst ` set example_seasons. year \<le> 2020"
    by (simp add: example_seasons_def)
  have l: "list_all (\<lambda>year. year \<le> 2020) (map fst example_seasons)"
    by (simp add: example_seasons_def)
  have m: "map_of example_seasons 2019
           = Some (CaliFireSeason 2019 5000 1000000 (example_top_five 2019))"
    by (simp add: example_seasons_def)
  from predict_fire_season_data_only_adds[OF h, of example_libm 3 "\<lambda>i. 7 * i + 3"]
  obtain new where
    "snd (predict_fire_season_data example_libm example_seasons 3 (\<lambda>i. 7 * i + 3)) = example_seasons @ new"
    and "\<forall>year season. map_of example_seasons year = Some season \<longrightarrow>
           map_of (snd (predict_fire_season_data example_libm example_seasons 3 (\<lambda>i. 7 * i + 3))) year
             = Some season"
    by (elim exE conjE)
  with l m show ?thesis by blast
qed

text \<open>
  Claim C1. For the two seasons 2019 (5000 fires, 1000000 acres) and 2020 (6000 fires,
  1500000 acres), each with a top five of five records, and \<open>n = 1\<close>,
  \<open>predict_fire_season_data\<close> returns, having added one entry, for the year 2021; its
  \<open>fires\<close> field is exactly 7000 and its top five is a list of exactly five records, each
  with acreage 90000 and 32 structures destroyed. This holds for every outcome of the
  random draws and for every C library: the two squares the fits take, of a half and of
  500, are binary64 values.
\<close>

theorem predict_two_seasons_one_year:
  assumes "length top_five_2019 = 5" and "length top_five_2020 = 5"
  shows "\<exists>top_five acreage.
           predict_fire_season_data libm
             [(2019, CaliFireSeason 2019 5000 1000000 top_five_2019),
              (2020, CaliFireSeason 2020 6000 1500000 top_five_2020)] 1 rng
           = (None,
              [(2019, CaliFireSeason 2019 5000 1000000 top_five_2019),
               (2020, CaliFireSeason 2020 6000 1500000 top_five_2020),
               (2021, CaliFireSeason 2021 7000 acreage top_five)])
           \<and> length top_five = 5
           \<and> (\<forall>fire \<in> set top_five.
                 fire_acreage fire = 90000 \<and> fire_structures_destroyed fire = 32)"
proof -
  define seasons where
    "seasons = [(2019 :: int, CaliFireSeason 2019 5000 1000000 top_five_2019),
                (2020, CaliFireSeason 2020 6000 1500000 top_five_2020)]"
  from collect_counties_result[of seasons] obtain cc where
    coll: "collect_counties seasons = Inr (map fire_county (historical_fires seasons), cc)"
    by (elim exE conjE)
  define ac where "ac = map fire_county (historical_fires seasons)"
  have cc_ok: "\<forall>county \<in> set ac. \<exists>causes. map_of cc county = Some causes \<and> causes \<noteq> []"
    using collect_counties_causes_nonempty(2)[OF coll] unfolding ac_def by blast
  have "length ac = 10"
    using assms by (simp add: ac_def historical_fires_def seasons_def)
  then have ac_ne: "ac \<noteq> []" by auto
  have years: "map (\<lambda>(year, season). season_year season) seasons = [2019, 2020]"
    and nums: "map (\<lambda>(year, season). season_fires season) seasons = [5000, 6000]"
    and acres: "map (\<lambda>(year, season). season_acreage season) seasons = [1000000, 1500000]"
    by (simp_all add: seasons_def)
  have one: "[1..1] = [1 :: int]"
    by (simp add: upto_rec1)
  have run: "predict_fire_season_data libm seasons 1 rng =
      predict_loop [7000] [2000000] ac cc [1] seasons rng"
    unfolding predict_fire_season_data_def Let_def years nums acres coll one
      extrapolate_num_fires_two_seasons extrapolate_acreages_two_seasons ac_def[symmetric]
    by (simp only: sum.case prod.case extrapolate_acreages_two_seasons)
  have keys: "\<forall>i \<in> set [1 :: int]. 2020 + i \<notin> fst ` set seasons"
    by (simp add: seasons_def)
  have lens: "\<forall>i \<in> set [1 :: int]. nat (i - 1) < length [7000 :: int]
      \<and> nat (i - 1) < length [2000000 :: int]"
    by simp
  from predict_loop_appends[OF keys _ lens ac_ne cc_ok, of rng]
  obtain new where
    new: "predict_loop [7000] [2000000] ac cc [1] seasons rng = (None, seasons @ new)"
    and all2: "list_all2 (\<lambda>i entry. \<exists>top_five.
                  entry = (2020 + i,
                           CaliFireSeason (2020 + i) ([7000] ! nat (i - 1))
                             ([2000000] ! nat (i - 1)) top_five)
                  \<and> length top_five = 5
                  \<and> (\<forall>fire \<in> set top_five.
                        fire_year fire = 2020 + i \<and> fire_acreage fire = 90000
                        \<and> fire_structures_destroyed fire = 32))
                [1] new"
    by auto
  from all2 obtain top_five where
    "new = [(2021, CaliFireSeason 2021 7000 2000000 top_five)]"
    and "length top_five = 5"
    and "\<forall>fire \<in> set top_five. fire_acreage fire = 90000 \<and> fire_structures_destroyed fire = 32"
    by (auto simp: list_all2_Cons1)
  then show ?thesis
    using run new unfolding seasons_def by auto
qed

theorem predict_two_seasons_one_year_witness:
  "length (example_top_five 2019) = 5 \<and> length (example_top_five 2020) = 5
   \<and> (\<exists>top_five acreage.
         predict_fire_season_data example_libm example_seasons 1 (\<lambda>i. 7 * i + 3)
           = (None, example_seasons @ [(2021, CaliFireSeason 2021 7000 acreage top_five)])
         \<and> length top_five = 5)"
proof -
  have h1: "length (example_top_five 2019) = 5" and h2: "length (example_top_five 2020) = 5"
    by (simp_all add: example_top_five_def)
  from predict_two_seasons_one_year[OF h1 h2, of example_libm "\<lambda>i. 7 * i + 3"] h1 h2
  show ?thesis
    unfolding example_seasons_def by auto
qed

lemma predict_next_top_five_from_history:
  assumes coll: "collect_counties seasons = Inr (all_counties, counties_causes)"
    and run: "predict_next_top_five year all_counties counties_causes rng = Inr (top_five, rng')"
    and fire: "fire \<in> set top_five"
  shows "\<exists>h \<in> set (historical_fires seasons).
           fire_county h = fire_county fire \<and> fire_cause h = fire_cause fire"
proof -
  from collect_counties_result[of seasons] coll have
    ac: "all_counties = map fire_county (historical_fires seasons)"
    and look: "\<forall>county. map_of counties_causes county =
           (if county \<notin> fire_county ` set (historical_fires seasons) then None
            else Some (map fire_cause
                        (filter (\<lambda>fire. fire_county fire = county) (historical_fires seasons))))"
    by auto
  have ok: "\<forall>county \<in> set all_counties.
           \<exists>causes. map_of counties_causes county = Some causes \<and> causes \<noteq> []"
    using collect_counties_causes_nonempty(2)[OF coll] by blast
  have ne: "all_counties \<noteq> []"
  proof
    assume "all_counties = []"
    then have "predict_next_top_five year all_counties counties_causes rng = Inl IndexError"
      by (simp add: predict_next_top_five_empty)
    with run show False by simp
  qed
  from predict_next_top_five_result[OF ne ok, of year rng] run fire
  obtain causes where c: "fire_county fire \<in> set all_counties"
    "map_of counties_causes (fire_county fire) = Some causes" "fire_cause fire \<in> set causes"
    by auto
  from c(1) have "fire_county fire \<in> fire_county ` set (historical_fires seasons)"
    by (simp add: ac)
  with look c(2) have "causes = map fire_cause
      (filter (\<lambda>h. fire_county h = fire_county fire) (historical_fires seasons))"
    by simp
  with c(3) show ?thesis by auto
qed

lemma predict_next_top_five_no_KeyError:
  assumes "collect_counties seasons = Inr (all_counties, counties_causes)"
  shows "predict_next_top_five year all_counties counties_causes rng \<noteq> Inl KeyError"
proof (cases "all_counties = []")
  case True
  then show ?thesis by (simp add: predict_next_top_five_empty)
next
  case False
  have "\<forall>county \<in> set all_counties.
           \<exists>causes. map_of counties_causes county = Some causes \<and> causes \<noteq> []"
    using collect_counties_causes_nonempty(2)[OF assms] by blast
  from predict_next_top_five_result[OF False this, of year rng] show ?thesis by auto
qed

lemma predict_fire_season_data_entries:
  assumes "collect_counties seasons = Inr (all_counties, counties_causes)"
    and "(year, season) \<in> set (snd (predict_fire_season_data libm seasons n rng))"
  shows "(year, season) \<in> set seasons
     \<or> (\<exists>rng1 rng2. predict_next_top_five year all_counties counties_causes rng1
            = Inr (season_top_five season, rng2))"
proof -
  define years where "years = map (\<lambda>(year, season). season_year season) seasons"
  define num_fires where "num_fires = map (\<lambda>(year, season). season_fires season) seasons"
  define acreages where "acreages = map (\<lambda>(year, season). season_acreage season) seasons"
  show ?thesis
  proof (cases "extrapolate_num_fires libm years num_fires n")
    case (Inl e)
    then have "predict_fire_season_data libm seasons n rng = (Some e, seasons)"
      by (simp add: predict_fire_season_data_def assms(1) Let_def
            flip: years_def num_fires_def acreages_def)
    with assms(2) show ?thesis by simp
  next
    case nf: (Inr nf)
    show ?thesis
    proof (cases "extrapolate_acreages libm num_fires acreages nf")
      case (Inl e)
      then have "predict_fire_season_data libm seasons n rng = (Some e, seasons)"
        by (simp add: predict_fire_season_data_def assms(1) nf Let_def
              flip: years_def num_fires_def acreages_def)
      with assms(2) show ?thesis by simp
    next
      case na: (Inr na)
      have "predict_fire_season_data libm seasons n rng =
          predict_loop nf na all_counties counties_causes [1..n] seasons rng"
        by (simp add: predict_fire_season_data_def assms(1) nf na Let_def
              flip: years_def num_fires_def acreages_def)
      with assms(2) show ?thesis
        using predict_loop_entries[of year season nf na all_counties counties_causes "[1..n]"
                seasons rng]
        by simp
    qed
  qed
qed

text \<open>
  Claim C9. In \<open>predict_fire_season_data\<close> the loop over the historical top fives always
  ends, with a sampling population \<open>all_counties\<close> each of whose counties is a key of
  \<open>counties_causes\<close> with a non-empty cause list. So \<open>predict_next_top_five\<close> never
  raises \<open>KeyError\<close> on them, whatever the random draws, and every record it synthesises
  has the county and the cause of a record of some historical season's top five; this
  holds of every record of every season the call adds to the dict.
\<close>

theorem sampled_counties_have_causes:
  "\<exists>all_counties counties_causes.
     collect_counties seasons = Inr (all_counties, counties_causes)
     \<and> (\<forall>county \<in> set all_counties.
           \<exists>causes. dict_get counties_causes county = Inr causes \<and> causes \<noteq> [])
     \<and> (\<forall>year rng. predict_next_top_five year all_counties counties_causes rng \<noteq> Inl KeyError)
     \<and> (\<forall>year rng top_five rng'.
           predict_next_top_five year all_counties counties_causes rng = Inr (top_five, rng') \<longrightarrow>
             (\<forall>fire \<in> set top_five. \<exists>h \<in> set (historical_fires seasons).
                fire_county h = fire_county fire \<and> fire_cause h = fire_cause fire))
     \<and> (\<forall>year season.
           (year, season) \<in> set (snd (predict_fire_season_data libm seasons n rng0))
             \<and> (year, season) \<notin> set seasons \<longrightarrow>
             (\<forall>fire \<in> set (season_top_five season). \<exists>h \<in> set (historical_fires seasons).
                fire_county h = fire_county fire \<and> fire_cause h = fire_cause fire))"
proof -
  from collect_counties_result[of seasons] obtain cc where
    coll: "collect_counties seasons = Inr (map fire_county (historical_fires seasons), cc)"
    by (elim exE conjE)
  define ac where "ac = map fire_county (historical_fires seasons)"
  note coll' = coll[folded ac_def]
  have "\<forall>county \<in> set ac. \<exists>causes. dict_get cc county = Inr causes \<and> causes \<noteq> []"
    using collect_counties_causes_nonempty(2)[OF coll'] by (fastforce simp: dict_get_Inr)
  moreover have "\<forall>year rng. predict_next_top_five year ac cc rng \<noteq> Inl KeyError"
    using predict_next_top_five_no_KeyError[OF coll'] by blast
  moreover have hist: "\<forall>year rng top_five rng'.
           predict_next_top_five year ac cc rng = Inr (top_five, rng') \<longrightarrow>
             (\<forall>fire \<in> set top_five. \<exists>h \<in> set (historical_fires seasons).
                fire_county h = fire_county fire \<and> fire_cause h = fire_cause fire)"
    using predict_next_top_five_from_history[OF coll'] by blast
  moreover have "\<forall>year season.
           (year, season) \<in> set (snd (predict_fire_season_data libm seasons n rng0))
             \<and> (year, season) \<notin> set seasons \<longrightarrow>
             (\<forall>fire \<in> set (season_top_five season). \<exists>h \<in> set (historical_fires seasons).
                fire_county h = fire_county fire \<and> fire_cause h = fire_cause fire)"
    using predict_fire_season_data_entries[OF coll', of _ _ libm n rng0] hist by blast
  ultimately show ?thesis
    using coll' by blast
qed

theorem sampled_counties_have_causes_witness:
  "\<exists>all_counties counties_causes.
     collect_counties example_seasons = Inr (all_counties, counties_causes)
     \<and> list_all (\<lambda>county. \<exists>causes. dict_get counties_causes county = Inr causes \<and> causes \<noteq> [])
         all_counties
     \<and> predict_next_top_five 2021 all_counties counties_causes (\<lambda>i. 7 * i + 3) \<noteq> Inl KeyError"
proof -
  from sampled_counties_have_causes[of example_seasons example_libm 1 "\<lambda>i. 7 * i + 3"]
  obtain all_counties counties_causes where
    "collect_counties example_seasons = Inr (all_counties, counties_causes)"
    and "\<forall>county \<in> set all_counties.
           \<exists>causes. dict_get counties_causes county = Inr causes \<and> causes \<noteq> []"
    and "\<forall>year rng. predict_next_top_five year all_counties counties_causes rng \<noteq> Inl KeyError"
    by (elim exE conjE)
  then show ?thesis
    by (intro exI[of _ all_counties] exI[of _ counties_causes]) (simp add: list_all_iff)
qed

subsection \<open>Regression on a constant independent variable\<close>

lemma extrapolate_num_fires_fit:
  "extrapolate_num_fires libm years fires n =
     py_bind (least_squares libm years fires (length fires))
       (\<lambda>(a, b). map_result (\<lambda>i. extrapolate_f a b (2020 + i)) [1..n])"
  by (simp add: extrapolate_num_fires_def least_squares_def py_bind_def Let_def
        split: sum.splits)

lemma extrapolate_acreages_fit:
  "extrapolate_acreages libm fires acreages next_fires =
     py_bind (least_squares libm fires acreages (length fires))
       (\<lambda>(a, b). map_result (\<lambda>fire. extrapolate_f a b fire) next_fires)"
  by (simp add: extrapolate_acreages_def least_squares_def py_bind_def Let_def
        split: sum.splits)

lemma py_sum_zeros: "py_sum (replicate k (Finite 0)) = Finite 0"
  unfolding py_sum_def by (induction k) (simp_all add: round64_zero)

lemma map_result_Inr_map:
  assumes "\<forall>x \<in> set xs. g x = Inr (h x)"
  shows "map_result g xs = Inr (map h xs)"
  using assms by (induction xs) (simp_all add: py_bind_Inr)

lemma sum_list_constant:
  fixes c :: int
  assumes "\<forall>x \<in> set xs. x = c"
  shows "sum_list xs = int (length xs) * c"
  using assms by (induction xs) (simp_all add: algebra_simps)

lemma int_truediv_constant:
  assumes "xs \<noteq> []" and "\<forall>x \<in> set xs. x = c"
  shows "int_truediv (sum_list xs) (int (length xs)) = int_to_float c"
proof -
  have "rat_of_int (int (length xs) * c) / rat_of_int (int (length xs)) = rat_of_int c"
    using assms(1) by simp
  then show ?thesis
    using assms(1) by (simp add: int_truediv_def int_to_float_def sum_list_constant[OF assms(2)])
qed

lemma int_to_float_cases:
  "int_to_float c = (if float_range c then Inr (Finite (rne53 (of_int c))) else Inl OverflowError)"
  by (simp add: int_to_float_def float_range_def)

lemma denominator_zero:
  assumes "\<forall>x \<in> set xs. x = c" and "float_range c"
  shows "map_result (\<lambda>i.
         py_bind (list_get xs i) (\<lambda>xi.
         py_bind (int_to_float xi) (\<lambda>xf.
         float_pow2 libm (float_sub xf (Finite (rne53 (of_int c)))))))
       [0..<length xs] = Inr (replicate (length xs) (Finite 0))"
proof -
  have "py_bind (list_get xs i) (\<lambda>xi.
         py_bind (int_to_float xi) (\<lambda>xf.
         float_pow2 libm (float_sub xf (Finite (rne53 (of_int c)))))) = Inr (Finite 0)"
    if "i \<in> set [0..<length xs]" for i
  proof -
    from that have i: "i < length xs" by simp
    then have "xs ! i = c" using assms(1) by simp
    then have "list_get xs i = Inr c" using i by (simp add: list_get_def)
    moreover have "int_to_float c = Inr (Finite (rne53 (of_int c)))"
      using assms(2) by (simp add: int_to_float_cases)
    moreover have "float_sub (Finite (rne53 (of_int c))) (Finite (rne53 (of_int c))) = Finite 0"
      by (simp add: float_sub_def round64_zero)
    moreover have "float_pow2 libm (Finite 0) = Inr (Finite 0)"
      by simp
    ultimately show ?thesis by (simp add: py_bind_Inr)
  qed
  then have "map_result (\<lambda>i.
         py_bind (list_get xs i) (\<lambda>xi.
         py_bind (int_to_float xi) (\<lambda>xf.
         float_pow2 libm (float_sub xf (Finite (rne53 (of_int c)))))))
       [0..<length xs] = Inr (map (\<lambda>i. Finite 0) [0..<length xs])"
    by (intro map_result_Inr_map) blast
  then show ?thesis by (simp add: map_replicate_const)
qed

lemma float_truediv_by_zero: "float_truediv a (Finite 0) = Inl ZeroDivisionError"
  by simp

lemma least_squares_constant:
  assumes "xs \<noteq> []" and "\<forall>x \<in> set xs. x = c"
  shows "least_squares libm xs ys k =
     py_bind (int_to_float c) (\<lambda>avr_x.
     py_bind (int_truediv (sum_list ys) (int (length ys))) (\<lambda>avr_y.
     py_bind (map_result (\<lambda>i.
         py_bind (list_get xs i) (\<lambda>xi.
         py_bind (int_to_float xi) (\<lambda>xf.
         py_bind (list_get ys i) (\<lambda>yi.
         py_bind (int_to_float yi) (\<lambda>yf.
         Inr (float_mul (float_sub xf avr_x) (float_sub yf avr_y)))))))
       [0..<k]) (\<lambda>numerator_terms. Inl ZeroDivisionError)))"
proof (cases "float_range c")
  case False
  then show ?thesis
    by (simp add: least_squares_def int_truediv_constant[OF assms] int_to_float_cases py_bind_Inl)
next
  case True
  then have conv: "int_to_float c = Inr (Finite (rne53 (of_int c)))"
    by (simp add: int_to_float_cases)
  show ?thesis
    unfolding least_squares_def int_truediv_constant[OF assms]
    by (simp only: conv py_bind_Inr py_bind_Inl denominator_zero[OF assms(2) True]
          py_sum_zeros float_truediv_by_zero)
qed

lemma least_squares_constant_overflow:
  assumes "xs \<noteq> []" and "\<forall>x \<in> set xs. x = c" and "\<not> float_range c"
  shows "least_squares libm xs ys k = Inl OverflowError"
  unfolding least_squares_constant[OF assms(1,2)]
  using assms(3) by (simp add: int_to_float_cases py_bind_Inl)

lemma least_squares_constant_fails:
  assumes "xs \<noteq> []" and "\<forall>x \<in> set xs. x = c"
  shows "\<exists>e. least_squares libm xs ys k = Inl e"
  unfolding least_squares_constant[OF assms]
  by (auto simp: py_bind_def split: sum.splits)

lemma mean_in_range:
  assumes "ys \<noteq> []" and "\<forall>y \<in> set ys. float_range y"
  shows "\<bar>rat_of_int (sum_list ys) / rat_of_int (int (length ys))\<bar> < overflow_threshold"
proof -
  have "\<bar>rat_of_int (sum_list ys)\<bar> < rat_of_int (int (length ys)) * overflow_threshold"
    using assms
  proof (induction ys rule: list_nonempty_induct)
    case (single y)
    then show ?case by (simp add: float_range_def)
  next
    case (cons y ys)
    then have "\<bar>rat_of_int (sum_list ys)\<bar> < rat_of_int (int (length ys)) * overflow_threshold"
      and "\<bar>rat_of_int y\<bar> < overflow_threshold"
      by (simp_all add: float_range_def)
    then have "\<bar>rat_of_int y + rat_of_int (sum_list ys)\<bar>
        < overflow_threshold + rat_of_int (int (length ys)) * overflow_threshold"
      by linarith
    then show ?case by (simp add: algebra_simps)
  qed
  moreover have "0 < rat_of_int (int (length ys))"
    using assms(1) by simp
  ultimately show ?thesis
    by (simp add: abs_divide pos_divide_less_eq mult.commute)
qed

lemma float_range_iff: "float_range i \<longleftrightarrow> \<bar>i\<bar> < 2 ^ 1024 - 2 ^ 970"
proof -
  have "rat_of_int (2 ^ 1024 - 2 ^ 970) = overflow_threshold"
    by (simp add: overflow_threshold_def)
  then have "float_range i \<longleftrightarrow> rat_of_int \<bar>i\<bar> < rat_of_int (2 ^ 1024 - 2 ^ 970)"
    by (simp add: float_range_def)
  then show ?thesis
    by (simp only: of_int_less_iff)
qed

lemma least_squares_constant_zero_division:
  assumes "xs \<noteq> []" and "\<forall>x \<in> set xs. x = c" and "float_range c"
    and "\<forall>y \<in> set ys. float_range y" and "k \<le> length xs" and "k \<le> length ys"
  shows "least_squares libm xs ys k = Inl ZeroDivisionError"
proof (cases "ys = []")
  case True
  then show ?thesis
    unfolding least_squares_constant[OF assms(1,2)]
    by (simp add: int_to_float_cases assms(3) py_bind_Inr py_bind_Inl int_truediv_def)
next
  case False
  have conv: "int_to_float c = Inr (Finite (rne53 (of_int c)))"
    using assms(3) by (simp add: int_to_float_cases)
  define m where "m = rne53 (rat_of_int (sum_list ys) / rat_of_int (int (length ys)))"
  have mean: "int_truediv (sum_list ys) (int (length ys)) = Inr (Finite m)"
    using mean_in_range[OF False assms(4)] False by (simp add: int_truediv_def m_def)
  have "\<forall>i \<in> set [0..<k]. \<exists>t.
         py_bind (list_get xs i) (\<lambda>xi.
         py_bind (int_to_float xi) (\<lambda>xf.
         py_bind (list_get ys i) (\<lambda>yi.
         py_bind (int_to_float yi) (\<lambda>yf.
         Inr (float_mul (float_sub xf (Finite (rne53 (of_int c)))) (float_sub yf (Finite m)))))))
         = Inr t"
  proof
    fix i assume "i \<in> set [0..<k]"
    then have ix: "i < length xs" and iy: "i < length ys"
      using assms(5,6) by simp_all
    have "list_get xs i = Inr c"
      using ix assms(2) by (simp add: list_get_def)
    moreover have "list_get ys i = Inr (ys ! i)"
      using iy by (simp add: list_get_def)
    moreover have "int_to_float (ys ! i) = Inr (Finite (rne53 (of_int (ys ! i))))"
      using iy assms(4) by (simp add: int_to_float_cases)
    ultimately show "\<exists>t.
         py_bind (list_get xs i) (\<lambda>xi.
         py_bind (int_to_float xi) (\<lambda>xf.
         py_bind (list_get ys i) (\<lambda>yi.
         py_bind (int_to_float yi) (\<lambda>yf.
         Inr (float_mul (float_sub xf (Finite (rne53 (of_int c)))) (float_sub yf (Finite m)))))))
         = Inr t"
      by (simp add: conv py_bind_Inr)
  qed
  from map_result_all_Inr[OF this] obtain nt where
    "map_result (\<lambda>i.
         py_bind (list_get xs i) (\<lambda>xi.
         py_bind (int_to_float xi) (\<lambda>xf.
         py_bind (list_get ys i) (\<lambda>yi.
         py_bind (int_to_float yi) (\<lambda>yf.
         Inr (float_mul (float_sub xf (Finite (rne53 (of_int c)))) (float_sub yf (Finite m))))))))
       [0..<k] = Inr nt"
    by blast
  then show ?thesis
    unfolding least_squares_constant[OF assms(1,2)]
    by (simp only: conv mean py_bind_Inr)
qed

text \<open>
  Claim C2, as the code has it. On a non-empty list of identical years
  \<open>extrapolate_num_fires\<close> always raises and never returns a result, and so does
  \<open>extrapolate_acreages\<close> on a non-empty list of identical fire counts. The exception is
  \<open>ZeroDivisionError\<close> (the specification's DegenerateInputError) when the lists are
  parallel and every value is an integer that converts to a float, of magnitude below
  \<open>2 ^ 1024 - 2 ^ 970\<close>; \<open>predict_fire_season_data\<close> then passes it to its caller and
  leaves the dict as it was. When the repeated value lies beyond that range the
  conversion raises \<open>OverflowError\<close> first.
\<close>

theorem constant_regression_raises:
  "(years \<noteq> [] \<and> (\<forall>x \<in> set years. x = c) \<longrightarrow>
      (\<exists>e. extrapolate_num_fires libm years fires n = Inl e))
   \<and> (years \<noteq> [] \<and> (\<forall>x \<in> set years. x = c) \<and> length fires \<le> length years
        \<and> float_range c \<and> (\<forall>v \<in> set fires. float_range v) \<longrightarrow>
      extrapolate_num_fires libm years fires n = Inl ZeroDivisionError)
   \<and> (past_fires \<noteq> [] \<and> (\<forall>x \<in> set past_fires. x = c) \<longrightarrow>
      (\<exists>e. extrapolate_acreages libm past_fires acreages next_fires = Inl e))
   \<and> (past_fires \<noteq> [] \<and> (\<forall>x \<in> set past_fires. x = c) \<and> length past_fires \<le> length acreages
        \<and> float_range c \<and> (\<forall>v \<in> set acreages. float_range v) \<longrightarrow>
      extrapolate_acreages libm past_fires acreages next_fires = Inl ZeroDivisionError)
   \<and> (seasons \<noteq> [] \<and> float_range c
        \<and> (\<forall>entry \<in> set seasons. season_year (snd entry) = c
              \<and> float_range (season_fires (snd entry))) \<longrightarrow>
      predict_fire_season_data libm seasons n rng = (Some ZeroDivisionError, seasons))
   \<and> (\<forall>i. float_range i \<longleftrightarrow> \<bar>i\<bar> < 2 ^ 1024 - 2 ^ 970)
   \<and> (years \<noteq> [] \<and> (\<forall>x \<in> set years. x = c) \<and> \<not> float_range c \<longrightarrow>
      extrapolate_num_fires libm years fires n = Inl OverflowError)
   \<and> (past_fires \<noteq> [] \<and> (\<forall>x \<in> set past_fires. x = c) \<and> \<not> float_range c \<longrightarrow>
      extrapolate_acreages libm past_fires acreages next_fires = Inl OverflowError)"
proof (intro conjI impI allI)
  assume "years \<noteq> [] \<and> (\<forall>x \<in> set years. x = c)"
  then obtain e where "least_squares libm years fires (length fires) = Inl e"
    using least_squares_constant_fails[of years c libm fires "length fires"] by blast
  then show "\<exists>e. extrapolate_num_fires libm years fires n = Inl e"
    by (simp add: extrapolate_num_fires_fit py_bind_Inl)
next
  assume "years \<noteq> [] \<and> (\<forall>x \<in> set years. x = c) \<and> length fires \<le> length years
        \<and> float_range c \<and> (\<forall>v \<in> set fires. float_range v)"
  then have "least_squares libm years fires (length fires) = Inl ZeroDivisionError"
    by (intro least_squares_constant_zero_division[of years c fires "length fires" libm]) simp_all
  then show "extrapolate_num_fires libm years fires n = Inl ZeroDivisionError"
    by (simp add: extrapolate_num_fires_fit py_bind_Inl)
next
  assume "past_fires \<noteq> [] \<and> (\<forall>x \<in> set past_fires. x = c)"
  then obtain e where "least_squares libm past_fires acreages (length past_fires) = Inl e"
    using least_squares_constant_fails[of past_fires c libm acreages "length past_fires"] by blast
  then show "\<exists>e. extrapolate_acreages libm past_fires acreages next_fires = Inl e"
    by (simp add: extrapolate_acreages_fit py_bind_Inl)
next
  assume "past_fires \<noteq> [] \<and> (\<forall>x \<in> set past_fires. x = c) \<and> length past_fires \<le> length acreages
        \<and> float_range c \<and> (\<forall>v \<in> set acreages. float_range v)"
  then have "least_squares libm past_fires acreages (length past_fires) = Inl ZeroDivisionError"
    by (intro least_squares_constant_zero_division[of past_fires c acreages "length past_fires" libm])
       simp_all
  then show "extrapolate_acreages libm past_fires acreages next_fires = Inl ZeroDivisionError"
    by (simp add: extrapolate_acreages_fit py_bind_Inl)
next
  assume a: "seasons \<noteq> [] \<and> float_range c
        \<and> (\<forall>entry \<in> set seasons. season_year (snd entry) = c
              \<and> float_range (season_fires (snd entry)))"
  define years' where "years' = map (\<lambda>(year, season). season_year season) seasons"
  define fires' where "fires' = map (\<lambda>(year, season). season_fires season) seasons"
  have "years' \<noteq> []" "\<forall>x \<in> set years'. x = c" "length fires' \<le> length years'"
    "\<forall>v \<in> set fires'. float_range v"
    using a by (auto simp: years'_def fires'_def)
  with a have "least_squares libm years' fires' (length fires') = Inl ZeroDivisionError"
    by (intro least_squares_constant_zero_division[of years' c fires' "length fires'" libm]) simp_all
  then have e: "extrapolate_num_fires libm years' fires' n = Inl ZeroDivisionError"
    by (simp add: extrapolate_num_fires_fit py_bind_Inl)
  from collect_counties_result[of seasons] obtain cc where
    "collect_counties seasons = Inr (map fire_county (historical_fires seasons), cc)"
    by (elim exE conjE)
  then show "predict_fire_season_data libm seasons n rng = (Some ZeroDivisionError, seasons)"
    by (simp add: predict_fire_season_data_def Let_def e flip: years'_def fires'_def)
next
  fix i show "float_range i \<longleftrightarrow> \<bar>i\<bar> < 2 ^ 1024 - 2 ^ 970"
    by (rule float_range_iff)
next
  assume "years \<noteq> [] \<and> (\<forall>x \<in> set years. x = c) \<and> \<not> float_range c"
  then have "least_squares libm years fires (length fires) = Inl OverflowError"
    by (intro least_squares_constant_overflow[of years c]) simp_all
  then show "extrapolate_num_fires libm years fires n = Inl OverflowError"
    by (simp add: extrapolate_num_fires_fit py_bind_Inl)
next
  assume "past_fires \<noteq> [] \<and> (\<forall>x \<in> set past_fires. x = c) \<and> \<not> float_range c"
  then have "least_squares libm past_fires acreages (length past_fires) = Inl OverflowError"
    by (intro least_squares_constant_overflow[of past_fires c]) simp_all
  then show "extrapolate_acreages libm past_fires acreages next_fires = Inl OverflowError"
    by (simp add: extrapolate_acreages_fit py_bind_Inl)
qed

theorem constant_regression_raises_witness:
  "extrapolate_num_fires example_libm [2020, 2020] [5000, 6000] 1 = Inl ZeroDivisionError
   \<and> extrapolate_acreages example_libm [5000, 5000] [1000000, 1500000] [7000] = Inl ZeroDivisionError
   \<and> predict_fire_season_data example_libm [(2020, CaliFireSeason 2020 6000 1500000 (example_top_five 2020))]
        1 (\<lambda>i. 7 * i + 3)
       = (Some ZeroDivisionError,
          [(2020, CaliFireSeason 2020 6000 1500000 (example_top_five 2020))])
   \<and> extrapolate_acreages example_libm [- (2 ^ 1024), - (2 ^ 1024)] [1000000, 1500000] [7000]
       = Inl OverflowError"
proof -
  have o: "\<not> float_range (- (2 ^ 1024))"
    using constant_regression_raises by simp
  have ov: "extrapolate_acreages example_libm [- (2 ^ 1024), - (2 ^ 1024)] [1000000, 1500000] [7000]
       = Inl OverflowError"
    using constant_regression_raises[where libm = example_libm and c = "- (2 ^ 1024)"
            and past_fires = "[- (2 ^ 1024), - (2 ^ 1024)]"
            and acreages = "[1000000, 1500000]" and next_fires = "[7000]"] o
    by simp
  have r: "float_range 2020" "float_range 5000" "float_range 6000" "float_range 1000000"
    "float_range 1500000"
    using constant_regression_raises by simp_all
  have "extrapolate_num_fires example_libm [2020, 2020] [5000, 6000] 1 = Inl ZeroDivisionError"
    using constant_regression_raises[where libm = example_libm and years = "[2020, 2020]" and c = 2020
            and fires = "[5000, 6000]" and n = 1] r
    by simp
  moreover have "extrapolate_acreages example_libm [5000, 5000] [1000000, 1500000] [7000] = Inl ZeroDivisionError"
    using constant_regression_raises[where libm = example_libm and c = 5000 and past_fires = "[5000, 5000]"
            and acreages = "[1000000, 1500000]" and next_fires = "[7000]"] r
    by simp
  moreover have "predict_fire_season_data example_libm
        [(2020, CaliFireSeason 2020 6000 1500000 (example_top_five 2020))] 1 (\<lambda>i. 7 * i + 3)
       = (Some ZeroDivisionError,
          [(2020, CaliFireSeason 2020 6000 1500000 (example_top_five 2020))])"
    using constant_regression_raises[where libm = example_libm and c = 2020 and n = 1 and rng = "\<lambda>i. 7 * i + 3"
            and seasons = "[(2020, CaliFireSeason 2020 6000 1500000 (example_top_five 2020))]"] r
    by simp
  ultimately show ?thesis using ov by blast
qed

theorem constant_regression_overflow_counterexample:
  "extrapolate_num_fires example_libm [2 ^ 1024] [5000] 1 = Inl OverflowError"
  by (simp add: extrapolate_num_fires_def int_truediv_def overflow_threshold_def py_bind_Inl)

section \<open>The scene builder\<close>

lemma FireCircle_init_fields:
  assumes "FireCircle_init x y fires = Inr circle"
  shows "get_coords circle = (x, y)" and "get_fires circle = Inr fires"
    and "is_FireCircle circle" and "circle_county circle = Some (fire_county (hd fires))"
proof -
  from assms obtain fire0 rest where fires: "fires = fire0 # rest"
    by (cases fires) auto
  from assms have "\<exists>acreage radius colour.
      circle = FireCircle x y (fire_county fire0) acreage fires radius colour"
    unfolding fires FireCircle_init_Cons by (auto split: if_splits)
  then show "get_coords circle = (x, y)" and "get_fires circle = Inr fires"
    and "is_FireCircle circle" and "circle_county circle = Some (fire_county (hd fires))"
    by (auto simp: fires)
qed

lemma FireCircle_init_nonempty:
  assumes "fires \<noteq> []"
  shows "\<exists>circle. FireCircle_init x y fires = Inr circle"
proof -
  from assms obtain fire0 rest where fires: "fires = fire0 # rest"
    by (cases fires) auto
  show ?thesis
    unfolding fires FireCircle_init_Cons by simp
qed

lemma centerize_width_WIDTH:
  "centerize_width font_size (TextLabel x y label_text label_font colour) WIDTH =
     Inr (TextLabel (spec_centred_x WIDTH (sint (fst (font_size label_font label_text))))
            y label_text label_font colour)"
proof -
  define w where "w = sint (fst (font_size label_font label_text))"
  have "- (2 ^ 31) \<le> w" and "w < 2 ^ 31"
    using sint_ge[of "fst (font_size label_font label_text)"]
      sint_lt[of "fst (font_size label_font label_text)"]
    by (simp_all add: w_def)
  then have w: "\<bar>w\<bar> < 2 ^ 51" and d: "\<bar>800 - w\<bar> < 2 ^ 51"
    by simp_all
  have s: "int_truediv 800 2 = Inr (Finite 400)"
    using int_truediv_two[of 800] by simp
  have t: "int_truediv w 2 = Inr (Finite (rat_of_int w / 2))"
    using w by (rule int_truediv_two)
  have "float_sub (Finite 400) (Finite (rat_of_int w / 2)) = round64 (rat_of_int (800 - w) / 2)"
    by (simp add: float_sub_def diff_divide_distrib)
  also have "\<dots> = Finite (rat_of_int (800 - w) / 2)"
    using d by (rule half_int_exact)
  finally have u: "float_sub (Finite 400) (Finite (rat_of_int w / 2)) =
      Finite (rat_of_int (800 - w) / 2)" .
  have e: "(if 0 \<le> 800 - w then (800 - w) div 2 else - ((- (800 - w)) div 2)) = spec_centred_x 800 w"
    by (simp add: spec_centred_x_def)
  have v: "float_to_int (Finite (rat_of_int (800 - w) / 2)) = Inr (spec_centred_x 800 w)"
    by (simp only: float_to_int_half e)
  show ?thesis
    by (simp only: centerize_width.simps WIDTH_def Let_def w_def[symmetric] s t u v py_bind_def
          sum.case)
qed

lemma county_circle_known:
  assumes "map_of MAPPING county = Some (ox, oy)"
    and "map_of fire_dict county = Some fires"
  shows "county_circle fire_dict (Image mx my filename) county =
           FireCircle_init (ox + mx) (oy + my) fires"
  using assms by (simp add: county_circle_def dict_get_def py_bind_Inr)

lemma county_circle_unknown:
  assumes "map_of MAPPING county = None"
  shows "county_circle fire_dict img_map county = Inl KeyError"
  using assms by (simp add: county_circle_def dict_get_def py_bind_Inl)

lemma get_counties_on_map_result:
  fixes season :: CaliFireSeason
  defines "top_five \<equiv> season_top_five season"
  shows "((\<exists>fire \<in> set top_five. \<not> dict_in (fire_county fire) MAPPING) \<longrightarrow>
            get_counties_on_map season (Image mx my filename) = Inl KeyError)
       \<and> ((\<forall>fire \<in> set top_five. dict_in (fire_county fire) MAPPING) \<longrightarrow>
            (\<exists>counties circles.
               get_counties_on_map season (Image mx my filename) = Inr circles
               \<and> distinct counties \<and> set counties = fire_county ` set top_five
               \<and> list_all2 (\<lambda>county circle. \<exists>ox oy.
                      dict_get MAPPING county = Inr (ox, oy)
                      \<and> FireCircle_init (ox + mx) (oy + my)
                           (filter (\<lambda>fire. fire_county fire = county) top_five) = Inr circle)
                   counties circles))"
proof -
  obtain fd where run:
    "fold_result (\<lambda>d fire. dict_append d (fire_county fire) fire) [] top_five = Inr fd"
    using group_fold_succeeds[of fire_county "\<lambda>fire. fire" "[]" top_five] by blast
  have look: "map_of fd county =
      (if county \<notin> fire_county ` set top_five then None
       else Some (filter (\<lambda>fire. fire_county fire = county) top_five))" for county
    using group_fold_lookup[of fire_county "\<lambda>fire. fire" "[]" top_five fd county] run by simp
  have keys: "fst ` set fd = fire_county ` set top_five"
    using group_fold_keys(1)[of fire_county "\<lambda>fire. fire" "[]" top_five fd] run by simp
  have dist: "distinct (map fst fd)"
    using group_fold_keys(2)[of fire_county "\<lambda>fire. fire" "[]" top_five fd] run by simp
  define counties where "counties = map fst fd"
  have cset: "set counties = fire_county ` set top_five"
    using keys by (simp add: counties_def)
  have eq: "get_counties_on_map season (Image mx my filename) =
      map_result (county_circle fd (Image mx my filename)) counties"
  proof -
    have "get_counties_on_map season (Image mx my filename) =
        py_bind (map_result (county_circle fd (Image mx my filename)) counties)
          (\<lambda>cs. Inr ([] @ cs))"
      unfolding get_counties_on_map_def top_five_def[symmetric] run py_bind_Inr
        fold_result_append counties_def ..
    also have "\<dots> = map_result (county_circle fd (Image mx my filename)) counties"
      by (cases "map_result (county_circle fd (Image mx my filename)) counties")
         (simp_all add: py_bind_Inl py_bind_Inr)
    finally show ?thesis .
  qed
  have circ: "county_circle fd (Image mx my filename) county =
      (case map_of MAPPING county of
         None \<Rightarrow> Inl KeyError
       | Some (ox, oy) \<Rightarrow>
           FireCircle_init (ox + mx) (oy + my)
             (filter (\<lambda>fire. fire_county fire = county) top_five))"
    if "county \<in> set counties" for county
  proof (cases "map_of MAPPING county")
    case None
    then show ?thesis by (simp add: county_circle_unknown)
  next
    case (Some p)
    obtain ox oy where p: "p = (ox, oy)" by (cases p)
    have "map_of fd county = Some (filter (\<lambda>fire. fire_county fire = county) top_five)"
      using that cset by (simp add: look)
    from county_circle_known[OF Some[unfolded p] this, of mx my filename] show ?thesis
      by (simp add: Some p)
  qed
  have ne: "filter (\<lambda>fire. fire_county fire = county) top_five \<noteq> []"
    if "county \<in> set counties" for county
    using that cset by (auto simp: filter_empty_conv)
  show ?thesis
  proof (intro conjI impI)
    assume "\<exists>fire \<in> set top_five. \<not> dict_in (fire_county fire) MAPPING"
    then obtain fire where "fire \<in> set top_five" "map_of MAPPING (fire_county fire) = None"
      unfolding dict_in_def by blast
    then have "fire_county fire \<in> set counties \<and> map_of MAPPING (fire_county fire) = None"
      using cset by blast
    then obtain county where c: "county \<in> set counties" "map_of MAPPING county = None"
      by blast
    have "county_circle fd (Image mx my filename) county = Inl KeyError"
      using c(2) by (rule county_circle_unknown)
    with c(1) have "\<exists>x \<in> set counties. county_circle fd (Image mx my filename) x = Inl KeyError"
      by blast
    moreover have "\<forall>x \<in> set counties. county_circle fd (Image mx my filename) x = Inl KeyError
        \<or> (\<exists>y. county_circle fd (Image mx my filename) x = Inr y)"
    proof
      fix x assume x: "x \<in> set counties"
      show "county_circle fd (Image mx my filename) x = Inl KeyError
        \<or> (\<exists>y. county_circle fd (Image mx my filename) x = Inr y)"
        using FireCircle_init_nonempty[OF ne[OF x]]
        by (auto simp: circ[OF x] split: option.splits)
    qed
    ultimately show "get_counties_on_map season (Image mx my filename) = Inl KeyError"
      unfolding eq by (rule map_result_only_error)
  next
    assume known: "\<forall>fire \<in> set top_five. dict_in (fire_county fire) MAPPING"
    have "\<forall>x \<in> set counties. \<exists>y. county_circle fd (Image mx my filename) x = Inr y"
    proof
      fix x assume x: "x \<in> set counties"
      then have "map_of MAPPING x \<noteq> None"
        using known cset by (auto simp: dict_in_def)
      then show "\<exists>y. county_circle fd (Image mx my filename) x = Inr y"
        using FireCircle_init_nonempty[OF ne[OF x]]
        by (auto simp: circ[OF x] split: option.splits)
    qed
    from map_result_all_Inr[OF this] obtain circles where
      res: "map_result (county_circle fd (Image mx my filename)) counties = Inr circles"
      and all2: "list_all2 (\<lambda>x y. county_circle fd (Image mx my filename) x = Inr y)
                   counties circles"
      by blast
    have "list_all2 (\<lambda>county circle. \<exists>ox oy.
                      dict_get MAPPING county = Inr (ox, oy)
                      \<and> FireCircle_init (ox + mx) (oy + my)
                           (filter (\<lambda>fire. fire_county fire = county) top_five) = Inr circle)
                   counties circles"
    proof (rule list.rel_mono_strong[OF all2])
      fix county circle
      assume "county \<in> set counties" "circle \<in> set circles"
        and "county_circle fd (Image mx my filename) county = Inr circle"
      then show "\<exists>ox oy.
                      dict_get MAPPING county = Inr (ox, oy)
                      \<and> FireCircle_init (ox + mx) (oy + my)
                           (filter (\<lambda>fire. fire_county fire = county) top_five) = Inr circle"
        by (auto simp: circ dict_get_def split: option.splits)
    qed
    with res dist cset
    show "\<exists>counties circles.
               get_counties_on_map season (Image mx my filename) = Inr circles
               \<and> distinct counties \<and> set counties = fire_county ` set top_five
               \<and> list_all2 (\<lambda>county circle. \<exists>ox oy.
                      dict_get MAPPING county = Inr (ox, oy)
                      \<and> FireCircle_init (ox + mx) (oy + my)
                           (filter (\<lambda>fire. fire_county fire = county) top_five) = Inr circle)
                   counties circles"
      unfolding eq counties_def[symmetric] by (intro exI[of _ counties] exI[of _ circles]) simp
  qed
qed

subsection \<open>Formatting the figures\<close>

lemma str_nat_length_pos: "0 < length (str_nat n)"
  by (cases "n < 10") simp_all

lemma str_nat_length_le:
  assumes "0 < k"
  shows "length (str_nat n) \<le> k \<longleftrightarrow> n < 10 ^ k"
  using assms
proof (induction n arbitrary: k rule: str_nat.induct)
  case (1 n)
  show ?case
  proof (cases "n < 10")
    case True
    have "(10::nat) ^ 1 \<le> 10 ^ k"
      using "1.prems" by (intro power_increasing) simp_all
    with True have "n < 10 ^ k" by simp
    moreover have "length (str_nat n) = 1"
      using True by simp
    ultimately show ?thesis
      using "1.prems" by simp
  next
    case False
    have len: "length (str_nat n) = Suc (length (str_nat (n div 10)))"
      using False by simp
    obtain j where k: "k = Suc j"
      using "1.prems" by (cases k) simp_all
    show ?thesis
    proof (cases "j = 0")
      case True
      then show ?thesis
        using False str_nat_length_pos[of "n div 10"] by (simp only: len k) simp
    next
      case j: False
      then have "length (str_nat (n div 10)) \<le> j \<longleftrightarrow> n div 10 < 10 ^ j"
        using "1.IH"[OF False, of j] by simp
      moreover have "n div 10 < 10 ^ j \<longleftrightarrow> n < 10 ^ j * 10"
        by (simp add: div_less_iff_less_mult)
      ultimately show ?thesis
        by (simp only: len k Suc_le_mono power_Suc mult.commute)
    qed
  qed
qed

lemma digit_count_le:
  assumes "0 < k"
  shows "digit_count i \<le> k \<longleftrightarrow> \<bar>i\<bar> < 10 ^ k"
proof -
  have "nat \<bar>i\<bar> < 10 ^ k \<longleftrightarrow> \<bar>i\<bar> < int (10 ^ k)"
    by (simp only: nat_less_iff abs_ge_zero)
  also have "int (10 ^ k) = 10 ^ k"
    by simp
  finally show ?thesis
    by (simp only: digit_count_def str_nat_length_le[OF assms])
qed

lemma str_int_cases:
  "str_int i =
     (if 10 ^ default_max_str_digits \<le> \<bar>i\<bar> then Inl ValueError else Inr (decimal i))"
proof -
  have "0 < default_max_str_digits"
    by (simp add: default_max_str_digits_def)
  from digit_count_le[OF this, of i]
  have "default_max_str_digits < digit_count i \<longleftrightarrow> 10 ^ default_max_str_digits \<le> \<bar>i\<bar>"
    by (metis not_le)
  then show ?thesis
    by (simp only: str_int_def)
qed

lemma digits_fit:
  assumes "digit_count i \<le> 4300"
  shows "\<not> 10 ^ default_max_str_digits \<le> \<bar>i\<bar>"
proof -
  have "0 < default_max_str_digits" and "digit_count i \<le> default_max_str_digits"
    using assms by (simp_all add: default_max_str_digits_def)
  then show ?thesis
    by (simp only: digit_count_le not_le)
qed

subsection \<open>The scene\<close>

text \<open>
  Claim C6, as the code has it. For a season whose two figures have at most 4300 decimal
  digits each, \<open>get_scrollables_for_season\<close> produces, in draw order: the season-summary
  label and the section-title label, both horizontally centred on the canvas width 800
  (for a season after 2020 the two figures of the summary carry a \<open>~\<close> and the title
  reads \<open>Five Vulnerable Counties:\<close> instead of \<open>Top Five Fires:\<close>); the map image; and
  one \<open>FireCircle\<close> per distinct county of the season's top five, built from the records
  of that county and placed at the map origin plus the county's offset in \<open>MAPPING\<close>. It
  raises \<open>KeyError\<close> when a county of the top five has no entry in \<open>MAPPING\<close>. A figure
  of more than 4300 digits, that is of magnitude \<open>10 ^ 4300\<close> or more, makes it raise
  \<open>ValueError\<close> before it looks at the counties.
\<close>

theorem scene_for_season:
  fixes season :: CaliFireSeason and font_size :: font_size
  defines "top_five \<equiv> season_top_five season"
  defines "season_text \<equiv>
    (if season_year season > 2020
     then ''Total # of fires: ~'' @ decimal (season_fires season)
            @ ''    Total acreage burned: ~'' @ decimal (season_acreage season)
     else ''Total # of fires: '' @ decimal (season_fires season)
            @ ''    Total acreage burned: '' @ decimal (season_acreage season))"
  defines "map_text \<equiv>
    (if season_year season > 2020 then ''Five Vulnerable Counties:'' else ''Top Five Fires:'')"
  defines "centred \<equiv> \<lambda>label_text. spec_centred_x 800 (sint (fst (font_size CALIBRI_24_B label_text)))"
  defines "too_long \<equiv> 10 ^ default_max_str_digits \<le> \<bar>season_fires season\<bar>
                         \<or> 10 ^ default_max_str_digits \<le> \<bar>season_acreage season\<bar>"
  shows "default_max_str_digits = 4300
       \<and> (too_long \<longrightarrow>
            get_scrollables_for_season font_size season (Image mx my filename) = Inl ValueError)
       \<and> (\<not> too_long \<and> (\<exists>fire \<in> set top_five. \<not> dict_in (fire_county fire) MAPPING) \<longrightarrow>
            get_scrollables_for_season font_size season (Image mx my filename) = Inl KeyError)
       \<and> (\<not> too_long \<and> (\<forall>fire \<in> set top_five. dict_in (fire_county fire) MAPPING) \<longrightarrow>
            (\<exists>counties circles.
               get_scrollables_for_season font_size season (Image mx my filename) =
                 Inr ([TextLabel (centred season_text) 160 season_text CALIBRI_24_B BLACK,
                       TextLabel (centred map_text) 200 map_text CALIBRI_24_B BLACK,
                       Image mx my filename] @ circles)
               \<and> distinct counties \<and> set counties = fire_county ` set top_five
               \<and> list_all2 (\<lambda>county circle. \<exists>ox oy.
                      dict_get MAPPING county = Inr (ox, oy)
                      \<and> FireCircle_init (ox + mx) (oy + my)
                           (filter (\<lambda>fire. fire_county fire = county) top_five) = Inr circle
                      \<and> is_FireCircle circle
                      \<and> get_coords circle = (ox + mx, oy + my)
                      \<and> get_fires circle = Inr (filter (\<lambda>fire. fire_county fire = county) top_five))
                   counties circles))"
proof -
  have long: "get_scrollables_for_season font_size season (Image mx my filename) = Inl ValueError"
    if too_long
    using that unfolding too_long_def
    by (auto simp: get_scrollables_for_season_def str_int_cases py_bind_Inl py_bind_Inr)
  have eq: "get_scrollables_for_season font_size season (Image mx my filename) =
      py_bind (get_counties_on_map season (Image mx my filename)) (\<lambda>county_circles.
        Inr ([TextLabel (centred season_text) 160 season_text CALIBRI_24_B BLACK,
              TextLabel (centred map_text) 200 map_text CALIBRI_24_B BLACK,
              Image mx my filename] @ county_circles))"
    if "\<not> too_long"
  proof -
    have c: "spec_centred_x WIDTH (sint (fst (font_size CALIBRI_24_B label_text))) =
        centred label_text" for label_text
      by (simp add: centred_def WIDTH_def)
    from that have f: "str_int (season_fires season) = Inr (decimal (season_fires season))"
      and g: "str_int (season_acreage season) = Inr (decimal (season_acreage season))"
      unfolding too_long_def by (simp_all add: str_int_cases)
    show ?thesis
      by (simp add: get_scrollables_for_season_def f g centerize_width_WIDTH py_bind_Inr c
            season_text_def map_text_def Let_def del: centerize_width.simps)
  qed
  note res = get_counties_on_map_result[of season mx my filename, folded top_five_def]
  show ?thesis
  proof (intro conjI impI)
    show "default_max_str_digits = 4300"
      by (simp add: default_max_str_digits_def)
  next
    assume too_long
    then show "get_scrollables_for_season font_size season (Image mx my filename) = Inl ValueError"
      by (rule long)
  next
    assume a: "\<not> too_long \<and> (\<exists>fire \<in> set top_five. \<not> dict_in (fire_county fire) MAPPING)"
    with res have "get_counties_on_map season (Image mx my filename) = Inl KeyError"
      by blast
    with a show "get_scrollables_for_season font_size season (Image mx my filename) = Inl KeyError"
      by (simp add: eq py_bind_Inl)
  next
    assume a: "\<not> too_long \<and> (\<forall>fire \<in> set top_five. dict_in (fire_county fire) MAPPING)"
    with res obtain counties circles where
      run: "get_counties_on_map season (Image mx my filename) = Inr circles"
      and dist: "distinct counties" and cset: "set counties = fire_county ` set top_five"
      and all2: "list_all2 (\<lambda>county circle. \<exists>ox oy.
                      dict_get MAPPING county = Inr (ox, oy)
                      \<and> FireCircle_init (ox + mx) (oy + my)
                           (filter (\<lambda>fire. fire_county fire = county) top_five) = Inr circle)
                   counties circles"
      by blast
    have "list_all2 (\<lambda>county circle. \<exists>ox oy.
                      dict_get MAPPING county = Inr (ox, oy)
                      \<and> FireCircle_init (ox + mx) (oy + my)
                           (filter (\<lambda>fire. fire_county fire = county) top_five) = Inr circle
                      \<and> is_FireCircle circle
                      \<and> get_coords circle = (ox + mx, oy + my)
                      \<and> get_fires circle = Inr (filter (\<lambda>fire. fire_county fire = county) top_five))
                   counties circles"
    proof (rule list_all2_mono[OF all2])
      fix county circle
      assume "\<exists>ox oy. dict_get MAPPING county = Inr (ox, oy)
                      \<and> FireCircle_init (ox + mx) (oy + my)
                           (filter (\<lambda>fire. fire_county fire = county) top_five) = Inr circle"
      then obtain ox oy where m: "dict_get MAPPING county = Inr (ox, oy)"
        and i: "FireCircle_init (ox + mx) (oy + my)
                  (filter (\<lambda>fire. fire_county fire = county) top_five) = Inr circle"
        by blast
      from m i FireCircle_init_fields(1,2,3)[OF i]
      show "\<exists>ox oy.
                      dict_get MAPPING county = Inr (ox, oy)
                      \<and> FireCircle_init (ox + mx) (oy + my)
                           (filter (\<lambda>fire. fire_county fire = county) top_five) = Inr circle
                      \<and> is_FireCircle circle
                      \<and> get_coords circle = (ox + mx, oy + my)
                      \<and> get_fires circle = Inr (filter (\<lambda>fire. fire_county fire = county) top_five)"
        by blast
    qed
    with run dist cset a
    show "\<exists>counties circles.
               get_scrollables_for_season font_size season (Image mx my filename) =
                 Inr ([TextLabel (centred season_text) 160 season_text CALIBRI_24_B BLACK,
                       TextLabel (centred map_text) 200 map_text CALIBRI_24_B BLACK,
                       Image mx my filename] @ circles)
               \<and> distinct counties \<and> set counties = fire_county ` set top_five
               \<and> list_all2 (\<lambda>county circle. \<exists>ox oy.
                      dict_get MAPPING county = Inr (ox, oy)
                      \<and> FireCircle_init (ox + mx) (oy + my)
                           (filter (\<lambda>fire. fire_county fire = county) top_five) = Inr circle
                      \<and> is_FireCircle circle
                      \<and> get_coords circle = (ox + mx, oy + my)
                      \<and> get_fires circle = Inr (filter (\<lambda>fire. fire_county fire = county) top_five))
                   counties circles"
      by (intro exI[of _ counties] exI[of _ circles]) (simp add: eq py_bind_Inr)
  qed
qed

lemma digit_count_examples:
  "digit_count 5000 = 4" "digit_count 1000000 = 7" "digit_count 7000 = 4"
  "digit_count 2000000 = 7"
  by (simp_all add: digit_count_def)

lemma decimal_examples:
  "decimal 5000 = ''5000''" "decimal 1000000 = ''1000000''"
  by (simp_all add: decimal_def)

theorem scene_for_season_witness:
  "get_scrollables_for_season example_font_size
       (CaliFireSeason 2021 7000 2000000 [CaliFire 2021 ''Atlantis'' 90000 ''Arson'' 32])
       (Image 190 240 ''county_map.jpg'') = Inl KeyError
   \<and> (\<exists>circles.
        get_scrollables_for_season example_font_size
          (CaliFireSeason 2019 5000 1000000 (example_top_five 2019))
          (Image 190 240 ''county_map.jpg'')
        = Inr ([TextLabel 97 160 ''Total # of fires: 5000    Total acreage burned: 1000000''
                  CALIBRI_24_B BLACK,
                TextLabel 317 200 ''Top Five Fires:'' CALIBRI_24_B BLACK,
                Image 190 240 ''county_map.jpg''] @ circles)
        \<and> length circles = 4)"
proof -
  have fit: "\<not> (10 ^ default_max_str_digits \<le> \<bar>7000::int\<bar>
                \<or> 10 ^ default_max_str_digits \<le> \<bar>2000000::int\<bar>)"
    "\<not> (10 ^ default_max_str_digits \<le> \<bar>5000::int\<bar>
                \<or> 10 ^ default_max_str_digits \<le> \<bar>1000000::int\<bar>)"
    using digits_fit[of 7000] digits_fit[of 2000000] digits_fit[of 5000] digits_fit[of 1000000]
    by (simp_all only: digit_count_examples) simp_all
  have unknown: "\<exists>fire \<in> set (season_top_five
        (CaliFireSeason 2021 7000 2000000 [CaliFire 2021 ''Atlantis'' 90000 ''Arson'' 32])).
      \<not> dict_in (fire_county fire) MAPPING"
    by (simp add: dict_in_def MAPPING_def)
  have known: "\<forall>fire \<in> set (season_top_five
        (CaliFireSeason 2019 5000 1000000 (example_top_five 2019))).
      dict_in (fire_county fire) MAPPING"
    by (simp add: dict_in_def MAPPING_def example_top_five_def)
  from scene_for_season[of "CaliFireSeason 2021 7000 2000000 [CaliFire 2021 ''Atlantis'' 90000 ''Arson'' 32]"
         example_font_size 190 240 "''county_map.jpg''"] unknown fit(1)
  have a: "get_scrollables_for_season example_font_size
       (CaliFireSeason 2021 7000 2000000 [CaliFire 2021 ''Atlantis'' 90000 ''Arson'' 32])
       (Image 190 240 ''county_map.jpg'') = Inl KeyError"
    by (simp only: CaliFireSeason.sel) blast
  from scene_for_season[of "CaliFireSeason 2019 5000 1000000 (example_top_five 2019)"
         example_font_size 190 240 "''county_map.jpg''"] known fit(2)
  obtain counties circles where
    run: "get_scrollables_for_season example_font_size
          (CaliFireSeason 2019 5000 1000000 (example_top_five 2019))
          (Image 190 240 ''county_map.jpg'')
        = Inr ([TextLabel 97 160 ''Total # of fires: 5000    Total acreage burned: 1000000''
                  CALIBRI_24_B BLACK,
                TextLabel 317 200 ''Top Five Fires:'' CALIBRI_24_B BLACK,
                Image 190 240 ''county_map.jpg''] @ circles)"
    and dist: "distinct counties"
    and cset: "set counties = fire_county ` set (example_top_five 2019)"
    and len: "length counties = length circles"
    by (auto simp: decimal_examples example_font_size_def spec_centred_x_def
          dest: list_all2_lengthD)
  have "fire_county ` set (example_top_five 2019) =
      set [''Butte'', ''Mariposa'', ''Riverside'', ''Shasta'']"
    by (auto simp: example_top_five_def)
  moreover have "card (set [''Butte'', ''Mariposa'', ''Riverside'', ''Shasta'']) = 4"
    by (subst distinct_card) simp_all
  ultimately have "card (set counties) = 4"
    unfolding cset by simp
  then have "length circles = 4"
    using dist len distinct_card by fastforce
  with a run show ?thesis by blast
qed

text \<open>The claim as the specification words it speaks of every season. A season with a
  figure of 4301 digits, all of whose counties are in \<open>MAPPING\<close>, has no scene; and one
  with a county that is not in \<open>MAPPING\<close> raises \<open>ValueError\<close>, not \<open>KeyError\<close>.\<close>

theorem scene_for_season_long_figure_counterexample:
  "list_all (\<lambda>fire. dict_in (fire_county fire) MAPPING) (example_top_five 2019)
   \<and> get_scrollables_for_season example_font_size
        (CaliFireSeason 2019 (10 ^ 4300) 1000000 (example_top_five 2019))
        (Image 190 240 ''county_map.jpg'') = Inl ValueError
   \<and> get_scrollables_for_season example_font_size
        (CaliFireSeason 2021 7000 (10 ^ 4300) [CaliFire 2021 ''Atlantis'' 90000 ''Arson'' 32])
        (Image 190 240 ''county_map.jpg'') = Inl ValueError"
proof -
  have "(10::int) ^ 4300 \<le> \<bar>10 ^ 4300\<bar>"
    by (rule abs_ge_self)
  then have long: "str_int (10 ^ 4300) = Inl ValueError"
    by (simp only: str_int_cases default_max_str_digits_def if_True)
  have short: "str_int 7000 = Inr (decimal 7000)"
    using digits_fit[of 7000] by (simp only: digit_count_examples str_int_cases) simp
  have "list_all (\<lambda>fire. dict_in (fire_county fire) MAPPING) (example_top_five 2019)"
    by (simp add: dict_in_def MAPPING_def example_top_five_def)
  moreover have "get_scrollables_for_season example_font_size
        (CaliFireSeason 2019 (10 ^ 4300) 1000000 (example_top_five 2019))
        (Image 190 240 ''county_map.jpg'') = Inl ValueError"
    by (simp only: get_scrollables_for_season_def CaliFireSeason.sel long py_bind_Inl)
  moreover have "get_scrollables_for_season example_font_size
        (CaliFireSeason 2021 7000 (10 ^ 4300) [CaliFire 2021 ''Atlantis'' 90000 ''Arson'' 32])
        (Image 190 240 ''county_map.jpg'') = Inl ValueError"
    by (simp only: get_scrollables_for_season_def CaliFireSeason.sel long short py_bind_Inl
          py_bind_Inr)
  ultimately show ?thesis by blast
qed

section \<open>The hit test\<close>

lemma get_bounds_assigned:
  "get_bounds (FireCircle cx cy county acreage fires (Some r) colour) =
     Inr (cx - r, cy - r, r * 2, r * 2)"
  by simp

lemma hit_step:
  "get_mouse_on_fire_circle px py (FireCircle cx cy county acreage fires (Some r) colour # rest) =
     (if spec_hit px py (FireCircle cx cy county acreage fires (Some r) colour)
      then Inr (Some (FireCircle cx cy county acreage fires (Some r) colour))
      else get_mouse_on_fire_circle px py rest)"
  by (simp add: py_bind_def Let_def)

lemma hit_step_unassigned:
  "get_mouse_on_fire_circle px py (FireCircle cx cy county acreage fires None colour # rest) =
     Inl AttributeError"
  by (simp add: py_bind_Inl)

text \<open>The loop stops at the first \<open>FireCircle\<close> that has no radius or whose box strictly
  contains the point.\<close>

lemma hit_test_scan:
  "get_mouse_on_fire_circle px py objs =
     (case find (\<lambda>s. spec_hit px py s \<or> is_FireCircle s \<and> circle_radius s = None) objs of
        None \<Rightarrow> Inr None
      | Some s \<Rightarrow> if circle_radius s = None then Inl AttributeError else Inr (Some s))"
proof (induction objs)
  case Nil
  show ?case by simp
next
  case (Cons s objs)
  show ?case
  proof (cases s)
    case (Image x y filename)
    then show ?thesis by (simp add: Cons.IH)
  next
    case (TextLabel x y label_text label_font colour)
    then show ?thesis by (simp add: Cons.IH)
  next
    case (FireCircle cx cy county acreage fires radius colour)
    show ?thesis
    proof (cases radius)
      case None
      show ?thesis
        unfolding FireCircle None by (simp only: hit_step_unassigned) simp
    next
      case (Some r)
      show ?thesis
        unfolding FireCircle Some by (simp only: hit_step) (simp add: Cons.IH)
    qed
  qed
qed

lemma hit_test_find:
  assumes "\<forall>s \<in> set objs. is_FireCircle s \<longrightarrow> circle_radius s \<noteq> None"
  shows "get_mouse_on_fire_circle px py objs = Inr (find (spec_hit px py) objs)"
  using assms
proof (induction objs)
  case Nil
  show ?case by simp
next
  case (Cons s objs)
  then have IH: "get_mouse_on_fire_circle px py objs = Inr (find (spec_hit px py) objs)"
    by simp
  show ?case
  proof (cases s)
    case (Image x y filename)
    then show ?thesis by (simp add: IH)
  next
    case (TextLabel x y label_text label_font colour)
    then show ?thesis by (simp add: IH)
  next
    case (FireCircle cx cy county acreage fires radius colour)
    with Cons.prems obtain r where r: "radius = Some r" by auto
    show ?thesis
      unfolding FireCircle r by (simp only: hit_step) (simp add: IH)
  qed
qed

lemma FireCircle_init_radius:
  assumes "FireCircle_init x y fires = Inr circle"
  shows "circle_radius circle \<noteq> None \<longleftrightarrow>
           2020 < fire_year (hd fires) \<or> 0 \<le> sum_list (map fire_acreage fires)"
proof -
  from assms obtain fire0 rest where fires: "fires = fire0 # rest"
    by (cases fires) auto
  from assms show ?thesis
    unfolding fires FireCircle_init_Cons
    by (auto simp: scan_bounds_cases split: if_splits)
qed

lemma new_scene_example:
  "new_scene example_font_size example_seasons 0 = Inr example_scene"
  by (simp add: new_scene_def initial_map_coords_def list_index_def list_get_def
        dict_get_def py_bind_Inr py_bind_Inl get_scrollables_for_season_def
        centerize_width_WIDTH[unfolded WIDTH_def]
        get_counties_on_map_def county_circle_def dict_append_def dict_in_def MAPPING_def
        example_font_size_def spec_centred_x_def WIDTH_def str_int_def digit_count_def decimal_def
        default_max_str_digits_def FireCircle_init_Cons
        scan_bounds_cases example_seasons_def example_top_five_def example_scene_def
      del: centerize_width.simps FireCircle_init.simps)

text \<open>
  Claim C5, as the code has it. For every point and every object list each of whose
  \<open>FireCircle\<close> objects has its radius, \<open>get_mouse_on_fire_circle\<close> returns the first
  \<open>FireCircle\<close> of the list whose bounding box, the square with top-left corner
  \<open>(cx - r, cy - r)\<close> and side \<open>2r\<close>, strictly contains the point; it returns \<open>None\<close>
  when no box strictly contains the point or the list holds no \<open>FireCircle\<close>; a point on
  an edge of the box is not a hit.

  The constructor leaves a circle without its radius exactly when the first record's
  year is at most 2020 and the accumulated acreage is negative. On any object list the
  call stops at the first \<open>FireCircle\<close> that has no radius or whose box strictly
  contains the point: at a circle without a radius it raises \<open>AttributeError\<close>, whatever
  comes after it in the list.
\<close>

theorem hit_test_first_strictly_inside:
  "((\<forall>s \<in> set objs. is_FireCircle s \<longrightarrow> circle_radius s \<noteq> None) \<longrightarrow>
       get_mouse_on_fire_circle px py objs = Inr (find (spec_hit px py) objs)
       \<and> ((\<forall>s \<in> set objs. \<not> spec_hit px py s) \<longrightarrow>
             get_mouse_on_fire_circle px py objs = Inr None))
   \<and> ((\<forall>s \<in> set objs. \<not> is_FireCircle s) \<longrightarrow> get_mouse_on_fire_circle px py objs = Inr None)
   \<and> (\<forall>cx cy county acreage fires r colour.
          px = cx - r \<or> px = cx + r \<or> py = cy - r \<or> py = cy + r \<longrightarrow>
            get_mouse_on_fire_circle px py [FireCircle cx cy county acreage fires (Some r) colour]
              = Inr None)
   \<and> get_mouse_on_fire_circle px py objs =
       (case find (\<lambda>s. spec_hit px py s \<or> is_FireCircle s \<and> circle_radius s = None) objs of
          None \<Rightarrow> Inr None
        | Some s \<Rightarrow> if circle_radius s = None then Inl AttributeError else Inr (Some s))
   \<and> (\<forall>x y fires circle. FireCircle_init x y fires = Inr circle \<longrightarrow>
          (circle_radius circle \<noteq> None \<longleftrightarrow>
             2020 < fire_year (hd fires) \<or> 0 \<le> sum_list (map fire_acreage fires)))"
proof (intro conjI impI allI)
  assume inv: "\<forall>s \<in> set objs. is_FireCircle s \<longrightarrow> circle_radius s \<noteq> None"
  then show main: "get_mouse_on_fire_circle px py objs = Inr (find (spec_hit px py) objs)"
    by (rule hit_test_find)
  assume "\<forall>s \<in> set objs. \<not> spec_hit px py s"
  then show "get_mouse_on_fire_circle px py objs = Inr None"
    by (simp add: main find_None_iff)
next
  assume none: "\<forall>s \<in> set objs. \<not> is_FireCircle s"
  then have "get_mouse_on_fire_circle px py objs = Inr (find (spec_hit px py) objs)"
    by (intro hit_test_find) simp
  moreover have "\<not> spec_hit px py s" if "s \<in> set objs" for s
    using none that by (cases s) auto
  ultimately show "get_mouse_on_fire_circle px py objs = Inr None"
    by (simp add: find_None_iff)
next
  fix cx cy county acreage fires r colour
  assume "px = cx - r \<or> px = cx + r \<or> py = cy - r \<or> py = cy + r"
  then show "get_mouse_on_fire_circle px py [FireCircle cx cy county acreage fires (Some r) colour]
              = Inr None"
    by (auto simp only: hit_step) (auto simp: Let_def)
next
  show "get_mouse_on_fire_circle px py objs =
       (case find (\<lambda>s. spec_hit px py s \<or> is_FireCircle s \<and> circle_radius s = None) objs of
          None \<Rightarrow> Inr None
        | Some s \<Rightarrow> if circle_radius s = None then Inl AttributeError else Inr (Some s))"
    by (rule hit_test_scan)
next
  fix x y fires circle
  assume "FireCircle_init x y fires = Inr circle"
  then show "circle_radius circle \<noteq> None \<longleftrightarrow>
             2020 < fire_year (hd fires) \<or> 0 \<le> sum_list (map fire_acreage fires)"
    by (rule FireCircle_init_radius)
qed

theorem hit_test_first_strictly_inside_witness:
  "new_scene example_font_size example_seasons 0 = Inr example_scene
   \<and> list_all (\<lambda>s. circle_radius s \<noteq> None) (filter is_FireCircle example_scene)
   \<and> get_mouse_on_fire_circle 305 365 example_scene =
       Inr (Some (FireCircle 302 367 ''Butte'' 70991
                    [CaliFire 2019 ''Butte'' 47647 ''Lightning'' 117,
                     CaliFire 2019 ''Butte'' 23344 ''Arson'' 351]
                    (Some 20) (Some ORANGE)))
   \<and> get_mouse_on_fire_circle 282 365 example_scene = Inr None
   \<and> get_mouse_on_fire_circle 305 365 [TextLabel 317 200 ''Top Five Fires:'' CALIBRI_24_B BLACK,
        Image 190 240 ''county_map.jpg''] = Inr None"
proof -
  have h: "\<forall>s \<in> set example_scene. is_FireCircle s \<longrightarrow> circle_radius s \<noteq> None"
    by (simp add: example_scene_def)
  have n: "\<forall>s \<in> set [TextLabel 317 200 ''Top Five Fires:'' CALIBRI_24_B BLACK,
        Image 190 240 ''county_map.jpg'']. \<not> is_FireCircle s"
    by simp
  from hit_test_first_strictly_inside[of example_scene 305 365] h
  have "get_mouse_on_fire_circle 305 365 example_scene =
      Inr (find (spec_hit 305 365) example_scene)"
    by blast
  then have a: "get_mouse_on_fire_circle 305 365 example_scene =
       Inr (Some (FireCircle 302 367 ''Butte'' 70991
                    [CaliFire 2019 ''Butte'' 47647 ''Lightning'' 117,
                     CaliFire 2019 ''Butte'' 23344 ''Arson'' 351]
                    (Some 20) (Some ORANGE)))"
    by (simp add: example_scene_def)
  from hit_test_first_strictly_inside[of example_scene 282 365] h
  have "get_mouse_on_fire_circle 282 365 example_scene =
      Inr (find (spec_hit 282 365) example_scene)"
    by blast
  then have b: "get_mouse_on_fire_circle 282 365 example_scene = Inr None"
    by (simp add: example_scene_def)
  from hit_test_first_strictly_inside[of "[TextLabel 317 200 ''Top Five Fires:'' CALIBRI_24_B BLACK,
        Image 190 240 ''county_map.jpg'']" 305 365] n
  have c: "get_mouse_on_fire_circle 305 365 [TextLabel 317 200 ''Top Five Fires:'' CALIBRI_24_B BLACK,
        Image 190 240 ''county_map.jpg''] = Inr None"
    by blast
  have "list_all (\<lambda>s. circle_radius s \<noteq> None) (filter is_FireCircle example_scene)"
    by (simp add: example_scene_def)
  with new_scene_example a b c show ?thesis by blast
qed

text \<open>The claim as the specification words it speaks of every object list. The
  constructor builds the first circle below, without a radius, from a record with a
  negative acreage. In the list of the two circles the second one strictly contains the
  point in its box, and the call raises \<open>AttributeError\<close>.\<close>

theorem hit_test_unassigned_radius_counterexample:
  "FireCircle_init 302 367 [CaliFire 2019 ''Butte'' (- 1) ''Lightning'' 0] =
     Inr (FireCircle 302 367 ''Butte'' (- 1) [CaliFire 2019 ''Butte'' (- 1) ''Lightning'' 0]
            None None)
   \<and> FireCircle_init 289 306 [CaliFire 2019 ''Shasta'' 27936 ''Lightning'' 12] =
     Inr (FireCircle 289 306 ''Shasta'' 27936 [CaliFire 2019 ''Shasta'' 27936 ''Lightning'' 12]
            (Some 15) (Some YELLOW))
   \<and> spec_hit 290 300
       (FireCircle 289 306 ''Shasta'' 27936 [CaliFire 2019 ''Shasta'' 27936 ''Lightning'' 12]
          (Some 15) (Some YELLOW))
   \<and> get_mouse_on_fire_circle 290 300
       [FireCircle 302 367 ''Butte'' (- 1) [CaliFire 2019 ''Butte'' (- 1) ''Lightning'' 0]
          None None,
        FireCircle 289 306 ''Shasta'' 27936 [CaliFire 2019 ''Shasta'' 27936 ''Lightning'' 12]
          (Some 15) (Some YELLOW)]
     = Inl AttributeError"
  by (simp add: FireCircle_init_Cons scan_bounds_cases py_bind_Inl del: FireCircle_init.simps)

section \<open>The frame loop\<close>

lemma handle_event_mouse:
  "handle_event font_size data st (MOUSEBUTTONDOWN button) =
     (let scroll_translate = (if button = 5 then - 1 else 1) * SCROLL_SPEED
      in if 0 \<le> scroll_amount st - scroll_translate
            \<and> scroll_amount st - scroll_translate \<le> MAX_SCROLL
         then Inr (st\<lparr>scrollables := scroll_objects (scrollables st) scroll_translate,
                      scroll_amount := scroll_amount st - scroll_translate\<rparr>)
         else Inr st)"
  by (simp add: handle_event_def Let_def)

lemma handle_event_in_bounds:
  assumes "scroll_in_bounds st" and "handle_event font_size data st ev = Inr st'"
  shows "scroll_in_bounds st'"
proof (cases ev)
  case QUIT
  with assms show ?thesis by (auto simp: handle_event_def scroll_in_bounds_def)
next
  case (MOUSEBUTTONDOWN button)
  with assms show ?thesis
    by (auto simp: handle_event_mouse scroll_in_bounds_def Let_def split: if_splits)
next
  case (KEYDOWN k)
  with assms(2) have "scroll_amount st' = 0"
    by (auto simp: handle_event_def py_bind_def split: sum.splits)
  then show ?thesis by (simp add: scroll_in_bounds_def MAX_SCROLL_def)
next
  case OTHER_EVENT
  with assms show ?thesis by (auto simp: handle_event_def)
qed

lemma fold_events_in_bounds:
  assumes "scroll_in_bounds st"
    and "fold_result (handle_event font_size data) st events = Inr st'"
  shows "scroll_in_bounds st'"
  using assms
proof (induction events arbitrary: st)
  case Nil
  then show ?case by simp
next
  case (Cons ev events)
  from Cons.prems(2) obtain st1 where
    "handle_event font_size data st ev = Inr st1"
    "fold_result (handle_event font_size data) st1 events = Inr st'"
    by (auto simp: py_bind_def split: sum.splits)
  with Cons.IH handle_event_in_bounds[OF Cons.prems(1)] show ?case by blast
qed

lemma frame_in_bounds:
  assumes "scroll_in_bounds st" and "frame font_size data st inp = Inr st'"
  shows "scroll_in_bounds st'"
proof -
  obtain mouse escape events where inp: "inp = (mouse, escape, events)"
    by (cases inp)
  have start: "scroll_in_bounds (if escape then st\<lparr>running := False\<rparr> else st)"
    using assms(1) by (simp add: scroll_in_bounds_def)
  from assms(2) have
    "fold_result (handle_event font_size data) (if escape then st\<lparr>running := False\<rparr> else st)
       events = Inr st'"
    unfolding inp frame_def
    by (auto simp: py_bind_def split: sum.splits prod.splits)
  with start show ?thesis by (rule fold_events_in_bounds)
qed

lemma main_loop_in_bounds:
  assumes "scroll_in_bounds st" and "main_loop font_size data st inps = Inr st'"
  shows "scroll_in_bounds st'"
  using assms
proof (induction inps arbitrary: st)
  case Nil
  then show ?case by simp
next
  case (Cons inp inps)
  show ?case
  proof (cases "running st")
    case True
    with Cons.prems(2) obtain st1 where
      "frame font_size data st inp = Inr st1" "main_loop font_size data st1 inps = Inr st'"
      by (auto simp: py_bind_def split: sum.splits)
    with Cons.IH frame_in_bounds[OF Cons.prems(1)] show ?thesis by blast
  next
    case False
    with Cons.prems show ?thesis by simp
  qed
qed

lemma main_init_in_bounds:
  assumes "main_init font_size data = Inr st"
  shows "scroll_amount st = 0"
  using assms by (auto simp: main_init_def py_bind_def split: sum.splits)

text \<open>
  Claim C7. The cumulative scroll offset starts at 0 and, with the maximum 600 and the
  step 15, stays between 0 and 600 in every state the frame loop reaches, whatever the
  input. A mouse-button event is always handled without an exception; when the offset
  it asks for lies outside the bounds it leaves the whole state as it is: the offset
  and every object of the scene. At offset 0 a request to scroll up (any button but 5)
  leaves the offset at 0.
\<close>

theorem scroll_offset_stays_in_bounds:
  "MAX_SCROLL = 600 \<and> SCROLL_SPEED = 15
   \<and> (\<forall>st0. main_init font_size data = Inr st0 \<longrightarrow> scroll_amount st0 = 0)
   \<and> (\<forall>st0 inps st. main_init font_size data = Inr st0
          \<and> main_loop font_size data st0 inps = Inr st \<longrightarrow>
            0 \<le> scroll_amount st \<and> scroll_amount st \<le> 600)
   \<and> (\<forall>st button.
          \<not> (0 \<le> scroll_amount st - (if button = 5 then - 1 else 1) * 15
              \<and> scroll_amount st - (if button = 5 then - 1 else 1) * 15 \<le> 600) \<longrightarrow>
            handle_event font_size data st (MOUSEBUTTONDOWN button) = Inr st)
   \<and> (\<forall>st button.
          0 \<le> scroll_amount st - (if button = 5 then - 1 else 1) * 15
              \<and> scroll_amount st - (if button = 5 then - 1 else 1) * 15 \<le> 600 \<longrightarrow>
            handle_event font_size data st (MOUSEBUTTONDOWN button) =
              Inr (st\<lparr>scrollables :=
                         map (\<lambda>obj. translate obj 0 ((if button = 5 then - 1 else 1) * 15))
                           (scrollables st),
                       scroll_amount :=
                         scroll_amount st - (if button = 5 then - 1 else 1) * 15\<rparr>))
   \<and> (\<forall>st button. scroll_amount st = 0 \<and> button \<noteq> 5 \<longrightarrow>
          handle_event font_size data st (MOUSEBUTTONDOWN button) = Inr st)"
proof (intro conjI allI impI)
  show "MAX_SCROLL = 600" by (simp add: MAX_SCROLL_def)
  show "SCROLL_SPEED = 15" by (simp add: SCROLL_SPEED_def)
next
  fix st0 assume "main_init font_size data = Inr st0"
  then show "scroll_amount st0 = 0" by (rule main_init_in_bounds)
next
  fix st0 inps st
  assume a: "main_init font_size data = Inr st0 \<and> main_loop font_size data st0 inps = Inr st"
  then have "scroll_in_bounds st0"
    using main_init_in_bounds[of font_size data st0]
    by (simp add: scroll_in_bounds_def MAX_SCROLL_def)
  with a have "scroll_in_bounds st"
    using main_loop_in_bounds by blast
  then show "0 \<le> scroll_amount st" and "scroll_amount st \<le> 600"
    by (simp_all add: scroll_in_bounds_def MAX_SCROLL_def)
next
  fix st :: app_state and button :: int
  assume "\<not> (0 \<le> scroll_amount st - (if button = 5 then - 1 else 1) * 15
              \<and> scroll_amount st - (if button = 5 then - 1 else 1) * 15 \<le> 600)"
  then show "handle_event font_size data st (MOUSEBUTTONDOWN button) = Inr st"
    by (auto simp: handle_event_mouse Let_def SCROLL_SPEED_def MAX_SCROLL_def)
next
  fix st :: app_state and button :: int
  assume "0 \<le> scroll_amount st - (if button = 5 then - 1 else 1) * 15
              \<and> scroll_amount st - (if button = 5 then - 1 else 1) * 15 \<le> 600"
  then show "handle_event font_size data st (MOUSEBUTTONDOWN button) =
              Inr (st\<lparr>scrollables :=
                         map (\<lambda>obj. translate obj 0 ((if button = 5 then - 1 else 1) * 15))
                           (scrollables st),
                       scroll_amount :=
                         scroll_amount st - (if button = 5 then - 1 else 1) * 15\<rparr>)"
    by (auto simp: handle_event_mouse Let_def SCROLL_SPEED_def MAX_SCROLL_def scroll_objects_def)
next
  fix st :: app_state and button :: int
  assume "scroll_amount st = 0 \<and> button \<noteq> 5"
  then show "handle_event font_size data st (MOUSEBUTTONDOWN button) = Inr st"
    by (auto simp: handle_event_mouse Let_def SCROLL_SPEED_def MAX_SCROLL_def)
qed

lemma main_init_example:
  "main_init example_font_size example_seasons =
     Inr \<lparr>running = True, scrollables = example_scene, scroll_amount = 0, curr_index = 0\<rparr>"
  by (simp add: main_init_def new_scene_example py_bind_Inr)

lemma main_loop_example:
  "main_loop example_font_size example_seasons
     \<lparr>running = True, scrollables = example_scene, scroll_amount = 0, curr_index = 0\<rparr>
     [((305, 365), False, [MOUSEBUTTONDOWN 4, MOUSEBUTTONDOWN 5, MOUSEBUTTONDOWN 5])] =
   Inr \<lparr>running = True, scrollables = scroll_objects example_scene (- 30),
         scroll_amount = 30, curr_index = 0\<rparr>"
  by (simp add: frame_def handle_event_mouse py_bind_Inr Let_def SCROLL_SPEED_def MAX_SCROLL_def
        scroll_objects_def example_scene_def)

theorem scroll_offset_stays_in_bounds_witness:
  "\<exists>st0 st.
     main_init example_font_size example_seasons = Inr st0
     \<and> main_loop example_font_size example_seasons st0
         [((305, 365), False, [MOUSEBUTTONDOWN 4, MOUSEBUTTONDOWN 5, MOUSEBUTTONDOWN 5])] = Inr st
     \<and> scroll_amount st0 = 0
     \<and> handle_event example_font_size example_seasons st0 (MOUSEBUTTONDOWN 4) = Inr st0
     \<and> scroll_amount st = 30 \<and> 0 \<le> scroll_amount st \<and> scroll_amount st \<le> 600"
proof -
  define st0 where
    "st0 = \<lparr>running = True, scrollables = example_scene, scroll_amount = 0, curr_index = 0\<rparr>"
  define st where
    "st = \<lparr>running = True, scrollables = scroll_objects example_scene (- 30),
            scroll_amount = 30, curr_index = 0\<rparr>"
  have init: "main_init example_font_size example_seasons = Inr st0"
    unfolding st0_def by (rule main_init_example)
  have loop: "main_loop example_font_size example_seasons st0
         [((305, 365), False, [MOUSEBUTTONDOWN 4, MOUSEBUTTONDOWN 5, MOUSEBUTTONDOWN 5])] = Inr st"
    unfolding st0_def st_def by (rule main_loop_example)
  note inst = scroll_offset_stays_in_bounds[of example_font_size example_seasons]
  from inst init have z: "scroll_amount st0 = 0" by blast
  from inst init loop have b: "0 \<le> scroll_amount st \<and> scroll_amount st \<le> 600" by blast
  from inst z have r: "handle_event example_font_size example_seasons st0 (MOUSEBUTTONDOWN 4) = Inr st0"
    by simp
  have "scroll_amount st = 30" by (simp add: st_def)
  with init loop z b r show ?thesis by blast
qed

end
